theory Spec2Isabelle
  imports Complex_Main "HOL-Library.Sublist" "HOL-Library.AList"
    "HOL-Library.Product_Lexorder"
begin

section \<open>Python strings\<close>

text \<open>
  A Python \<open>str\<close> is modelled as a \<open>string\<close> (a list of \<open>char\<close>), each \<open>char\<close> standing
  for one code point below 256, so that \<open>length\<close> is Python's \<open>len\<close>. The functions below
  are the \<open>str\<close> methods that \<open>rag_engine.py\<close> calls. A Python name that starts with
  an underscore is written without it (\<open>_load_index\<close> is \<open>load_index\<close>).
\<close>

text \<open>
  \<open>str.isspace\<close> on one character. Below 256 the whitespace code points of Python are
  9 to 13, 28 to 32, 133 and 160.
\<close>

definition isspace :: "char \<Rightarrow> bool" where
  "isspace c = (let n = (of_char c :: nat) in
     (9 \<le> n \<and> n \<le> 13) \<or> (28 \<le> n \<and> n \<le> 32) \<or> n = 133 \<or> n = 160)"

text \<open>\<open>s.strip()\<close>: leading and trailing whitespace removed.\<close>

definition strip :: "string \<Rightarrow> string" where
  "strip s = rev (dropWhile isspace (rev (dropWhile isspace s)))"

text \<open>
  \<open>s.split(sep)\<close>: the pieces of \<open>s\<close> between the occurrences of \<open>sep\<close>, found from
  left to right without overlap; the empty string gives one empty piece. Python raises
  \<open>ValueError\<close> on an empty separator; both call sites pass a literal separator
  (\<open>'\n\n'\<close> and \<open>'\n'\<close>), and on an empty one this function does not split.
\<close>

fun split_sep :: "string \<Rightarrow> string \<Rightarrow> string list" where
  "split_sep sep [] = [[]]"
| "split_sep sep (c # cs) =
     (if sep \<noteq> [] \<and> prefix sep (c # cs)
      then [] # split_sep sep (drop (length sep) (c # cs))
      else (case split_sep sep cs of [] \<Rightarrow> [[c]] | p # ps \<Rightarrow> (c # p) # ps))"

text \<open>
  \<open>s.split()\<close> with no argument: the maximal runs of characters that are not whitespace.
  \<open>tok\<close> is the run read so far.
\<close>

fun split_ws_from :: "string \<Rightarrow> string \<Rightarrow> string list" where
  "split_ws_from tok [] = (if tok = [] then [] else [tok])"
| "split_ws_from tok (c # cs) =
     (if isspace c
      then (if tok = [] then split_ws_from [] cs else tok # split_ws_from [] cs)
      else split_ws_from (tok @ [c]) cs)"

definition split_ws :: "string \<Rightarrow> string list" where
  "split_ws s = split_ws_from [] s"

text \<open>
  \<open>s.lower()\<close>. Below 256 the code points with a lowercase form are \<open>A\<close> to \<open>Z\<close> and
  192 to 222 without 215; each moves up by 32.
\<close>

definition lower_char :: "char \<Rightarrow> char" where
  "lower_char c = (let n = (of_char c :: nat) in
     if (65 \<le> n \<and> n \<le> 90) \<or> (192 \<le> n \<and> n \<le> 222 \<and> n \<noteq> 215)
     then char_of (n + 32) else c)"

definition lower :: "string \<Rightarrow> string" where
  "lower s = map lower_char s"

text \<open>\<open>sep.join(xs)\<close>.\<close>

fun join :: "string \<Rightarrow> string list \<Rightarrow> string" where
  "join sep [] = []"
| "join sep [x] = x"
| "join sep (x # y # ys) = x @ sep @ join sep (y # ys)"

text \<open>
  The truth value of an optional string, as in \<open>if source_filter:\<close>: \<open>None\<close> and the empty
  string are false.
\<close>

definition truthy :: "string option \<Rightarrow> bool" where
  "truthy s = (case s of None \<Rightarrow> False | Some x \<Rightarrow> x \<noteq> [])"

text \<open>\<open>xs[:k]\<close> for a Python \<open>int\<close> \<open>k\<close>: a negative \<open>k\<close> counts from the end.\<close>

definition slice_to :: "'a list \<Rightarrow> int \<Rightarrow> 'a list" where
  "slice_to xs k = (if 0 \<le> k then take (nat k) xs else take (length xs - nat (- k)) xs)"

section \<open>Exceptions\<close>

text \<open>
  The exceptions that the modelled code can raise. \<open>NotANumber\<close> is no exception: it
  marks a run of brute-force retrieval that sorts two or more similarities with \<open>nan\<close>
  among them (see \<open>retrieve_relevant_chunks\<close>).
\<close>

datatype py_error =
  ValueError | AssertionError | IndexError | OSError | UnpicklingError | KeyError
  | TypeError | ProviderError | SearchError | NotANumber

section \<open>Chunks\<close>

text \<open>
  The dataclass \<open>Chunk\<close>. The fields \<open>text\<close> and \<open>section\<close> carry the suffix \<open>_c\<close>
  (both words are reserved here). An embedding is a list of Python floats, each given by
  the real number that it denotes; \<open>None\<close> is the dataclass's default.
\<close>

record chunk =
  text_c :: string
  source :: string
  section_c :: string
  embedding :: "real list option"

section \<open>The chunker\<close>

text \<open>
  The two places where \<open>chunk_text\<close> closes the running buffer: the stripped buffer is
  appended as a chunk when it is not empty.
\<close>

definition close_chunk :: "string \<Rightarrow> string \<Rightarrow> chunk list \<Rightarrow> string \<Rightarrow> chunk list" where
  "close_chunk src sec chunks current_chunk =
     (if strip current_chunk \<noteq> []
      then chunks @ [\<lparr>text_c = strip current_chunk, source = src, section_c = sec,
                      embedding = None\<rparr>]
      else chunks)"

text \<open>
  The loop \<open>for para in paragraphs\<close>, with the state \<open>(chunks, current_chunk)\<close> passed
  along. \<open>chunk_size\<close> is a Python \<open>int\<close>.
\<close>

fun chunk_loop ::
  "string \<Rightarrow> string \<Rightarrow> int \<Rightarrow> chunk list \<Rightarrow> string \<Rightarrow> string list \<Rightarrow> chunk list \<times> string"
where
  "chunk_loop src sec chunk_size chunks current_chunk [] = (chunks, current_chunk)"
| "chunk_loop src sec chunk_size chunks current_chunk (para # paragraphs) =
     (if int (length current_chunk) + int (length para) < chunk_size
      then chunk_loop src sec chunk_size chunks
             (current_chunk @ para @ ''\<newline>\<newline>'') paragraphs
      else chunk_loop src sec chunk_size (close_chunk src sec chunks current_chunk)
             (para @ ''\<newline>\<newline>'') paragraphs)"

definition chunk_text :: "string \<Rightarrow> string \<Rightarrow> string \<Rightarrow> int \<Rightarrow> chunk list" where
  "chunk_text txt src sec chunk_size =
     (let paragraphs = split_sep ''\<newline>\<newline>'' txt;
          (chunks, current_chunk) = chunk_loop src sec chunk_size [] [] paragraphs
      in close_chunk src sec chunks current_chunk)"

section \<open>Section detection\<close>

text \<open>The table \<open>section_keywords\<close> of \<open>_detect_sections\<close>, in the order of the dict.\<close>

definition section_keywords :: "(string \<times> string list) list" where
  "section_keywords =
     [(''summary'', [''summary'', ''objective'', ''profile'', ''about'']),
      (''experience'',
         [''experience'', ''work history'', ''employment'', ''professional experience'']),
      (''education'', [''education'', ''academic'', ''degree'']),
      (''skills'', [''skills'', ''technical skills'', ''competencies'', ''expertise'']),
      (''projects'', [''projects'', ''portfolio'']),
      (''certifications'', [''certifications'', ''certificates'', ''licenses''])]"

text \<open>
  The inner loop over the table: the first section whose test
  \<open>any(keyword in line_lower for keyword in keywords) and len(line.split()) < 5\<close> holds,
  or \<open>None\<close> when the loop ends with \<open>section_found\<close> still false. \<open>keyword in line_lower\<close>
  is the test for a contiguous substring.
\<close>

fun find_section :: "string \<Rightarrow> string \<Rightarrow> (string \<times> string list) list \<Rightarrow> string option" where
  "find_section line_lower line [] = None"
| "find_section line_lower line ((section_name, keywords) # table) =
     (if list_ex (\<lambda>keyword. sublist keyword line_lower) keywords \<and> length (split_ws line) < 5
      then Some section_name
      else find_section line_lower line table)"

text \<open>
  One pass of \<open>for line in lines\<close> over the state \<open>(sections, current_section,
  current_text)\<close>. The dict \<open>sections\<close> is an association list in insertion order; an
  assignment to a key that is there keeps the key's place, as in Python.
\<close>

definition detect_step ::
  "(string \<times> string) list \<times> string \<times> string list \<Rightarrow> string \<Rightarrow>
   (string \<times> string) list \<times> string \<times> string list"
where
  "detect_step state line =
     (case state of (sections, current_section, current_text) \<Rightarrow>
        (case find_section (strip (lower line)) line section_keywords of
           Some section_name \<Rightarrow>
             ((if current_text \<noteq> []
               then AList.update current_section (join ''\<newline>'' current_text) sections
               else sections),
              section_name, [])
         | None \<Rightarrow>
             (if strip line \<noteq> [] then (sections, current_section, current_text @ [line])
              else (sections, current_section, current_text))))"

fun detect_loop ::
  "(string \<times> string) list \<times> string \<times> string list \<Rightarrow> string list \<Rightarrow>
   (string \<times> string) list \<times> string \<times> string list"
where
  "detect_loop state [] = state"
| "detect_loop state (line # lines) = detect_loop (detect_step state line) lines"

definition detect_sections :: "string \<Rightarrow> (string \<times> string) list" where
  "detect_sections txt =
     (case detect_loop ([], ''summary'', []) (split_sep ''\<newline>'' txt) of
        (sections, current_section, current_text) \<Rightarrow>
          (if current_text \<noteq> []
           then AList.update current_section (join ''\<newline>'' current_text) sections
           else sections))"

section \<open>Cosine similarity and brute-force retrieval\<close>

text \<open>
  A value of numpy's \<open>float64\<close>: \<open>nan\<close>, an infinity, or a finite float, given by the real
  number that it denotes (so \<open>0.0\<close> and \<open>-0.0\<close> are one value, as they are for \<open>==\<close> and
  \<open><\<close>). The coordinates of an embedding are finite floats, given by their values too.
\<close>

datatype float64 = NaN | NegInf | Finite real | PosInf

text \<open>
  The arithmetic of numpy is no code of the repository, and its results depend on the
  rounding, the overflow and the underflow of the machine. It is a parameter of the
  functions below: \<open>np.dot\<close> of two one-dimensional arrays of one length,
  \<open>np.linalg.norm\<close> of a one-dimensional array, and the product and the quotient of two
  \<open>float64\<close> values. A division by zero is no exception there: numpy warns and returns
  \<open>nan\<close> or an infinity.
\<close>

record numpy =
  np_dot :: "real list \<Rightarrow> real list \<Rightarrow> float64"
  np_linalg_norm :: "real list \<Rightarrow> float64"
  float64_mul :: "float64 \<Rightarrow> float64 \<Rightarrow> float64"
  float64_div :: "float64 \<Rightarrow> float64 \<Rightarrow> float64"

text \<open>
  \<open>cosine_similarity\<close>. \<open>np.dot\<close> is evaluated first and raises \<open>ValueError\<close> when the two
  arrays differ in length. The denominator is not tested.
\<close>

definition cosine_similarity :: "numpy \<Rightarrow> real list \<Rightarrow> real list \<Rightarrow> py_error + float64" where
  "cosine_similarity np vec1 vec2 =
     (if length vec1 \<noteq> length vec2 then Inl ValueError
      else Inr (float64_div np (np_dot np vec1 vec2)
                  (float64_mul np (np_linalg_norm np vec1) (np_linalg_norm np vec2))))"

text \<open>
  The loop that fills \<open>similarities\<close>. \<open>if chunk.embedding:\<close> skips a chunk whose embedding
  is \<open>None\<close> or the empty list.
\<close>

fun similarities_loop ::
  "numpy \<Rightarrow> real list \<Rightarrow> chunk list \<Rightarrow> py_error + (chunk \<times> float64) list"
where
  "similarities_loop np query_embedding [] = Inr []"
| "similarities_loop np query_embedding (c # cs) =
     (case embedding c of
        None \<Rightarrow> similarities_loop np query_embedding cs
      | Some e \<Rightarrow>
          (if e = [] then similarities_loop np query_embedding cs
           else (case cosine_similarity np query_embedding e of
                   Inl err \<Rightarrow> Inl err
                 | Inr sim \<Rightarrow>
                     (case similarities_loop np query_embedding cs of
                        Inl err \<Rightarrow> Inl err
                      | Inr similarities \<Rightarrow> Inr ((c, sim) # similarities)))))"

text \<open>
  \<open>similarities.sort(key=lambda x: x[1], reverse=True)\<close>: Python's sort is stable, also
  with \<open>reverse=True\<close>, so pairs of equal similarity keep their order. On keys without
  \<open>nan\<close> that is \<open>sort_key\<close> on the place of a key in descending order: \<open>inf\<close> first, then
  the finite floats from the greatest down, then \<open>-inf\<close>. Pairs are ordered
  lexicographically.
\<close>

fun descending_key :: "float64 \<Rightarrow> int \<times> real" where
  "descending_key PosInf = (0, 0)"
| "descending_key (Finite r) = (1, - r)"
| "descending_key NegInf = (2, 0)"
| "descending_key NaN = (3, 0)"

definition sort_by_similarity :: "(chunk \<times> float64) list \<Rightarrow> (chunk \<times> float64) list" where
  "sort_by_similarity similarities = sort_key (\<lambda>x. descending_key (snd x)) similarities"

section \<open>The engine, the vector store and the disk\<close>

text \<open>
  An \<open>IndexFlatL2\<close> of FAISS: its dimension and the vectors added so far, in the order of
  their identifiers. The rounding of the coordinates to \<open>float32\<close> is not modelled.
\<close>

record faiss =
  faiss_d :: nat
  faiss_vectors :: "real list list"

definition ntotal :: "faiss \<Rightarrow> nat" where
  "ntotal idx = length (faiss_vectors idx)"

record ats_rule =
  category :: string
  rules :: "string list"
  weight :: int

text \<open>
  The fields of \<open>RAGEngine\<close> that the modelled methods read or write. The dict
  \<open>index_to_chunk_map\<close> is an association list in insertion order. The OpenAI client is
  not a field: the embedding call \<open>get_embedding\<close> is a parameter of the functions below, which
  returns the vector or the exception of the provider.
\<close>

record engine =
  chunks :: "chunk list"
  index_dir :: string
  embedding_dim :: nat
  faiss_index :: "faiss option"
  index_to_chunk_map :: "(int \<times> int) list"
  ats_rules :: "ats_rule list"

definition load_ats_rules :: "ats_rule list" where
  "load_ats_rules =
     [\<lparr>category = ''Keyword Optimization'',
       rules = [''Resume should contain 70%+ of job description keywords'',
                ''Keywords should appear in context, not just listed'',
                ''Use exact keyword matches from job description'',
                ''Include industry-specific terminology''],
       weight = 30\<rparr>,
      \<lparr>category = ''Formatting'',
       rules = [''Use standard section headers (Experience, Education, Skills)'',
                ''Avoid tables, text boxes, headers/footers'',
                ''Use simple bullet points'',
                ''Consistent date formatting'',
                ''No images or graphics''],
       weight = 20\<rparr>,
      \<lparr>category = ''Content Quality'',
       rules = [''Quantify achievements with metrics'',
                ''Use action verbs to start bullet points'',
                ''Show impact and results'',
                ''Relevant experience highlighted'',
                ''No spelling or grammar errors''],
       weight = 25\<rparr>,
      \<lparr>category = ''Experience Relevance'',
       rules = [''Recent experience matches job requirements'',
                ''Progressive career growth shown'',
                ''Relevant projects and achievements'',
                ''Industry experience alignment''],
       weight = 15\<rparr>,
      \<lparr>category = ''Skills Match'',
       rules = [''Technical skills match job requirements'',
                ''Certifications relevant to role'',
                ''Tools and technologies listed'',
                ''Soft skills demonstrated through achievements''],
       weight = 10\<rparr>]"

text \<open>
  What \<open>pickle.load\<close> gives under a key of the metadata dict: a value of the type that
  \<open>_save_index\<close> writes under the key, or another object, one with a \<open>len()\<close> or one
  without (\<open>None\<close>, a number). \<open>len(x)\<close> raises \<open>TypeError\<close> on an object without.
\<close>

datatype 'a unpickled = Expected 'a | Sized nat | Unsized

fun py_len :: "'a list unpickled \<Rightarrow> py_error + nat" where
  "py_len (Expected xs) = Inr (length xs)"
| "py_len (Sized n) = Inr n"
| "py_len Unsized = Inl TypeError"

text \<open>
  The pickled metadata dict. A file written by \<open>_save_index\<close> has all four keys; a field
  is \<open>None\<close> in a file that lacks the key.
\<close>

record metadata =
  md_chunks :: "chunk list unpickled option"
  md_index_to_chunk_map :: "(int \<times> int) list unpickled option"
  md_created_at :: "string option"
  md_num_chunks :: "int option"

text \<open>
  A file is a written FAISS index, a pickled metadata dict, or anything else. The disk
  maps a path to its file. What the operating system decides is a parameter: which
  paths can be read, written and removed, and the clock.
\<close>

datatype file_content = FaissFile faiss | PickleFile metadata | Garbage

type_synonym disk = "string \<Rightarrow> file_content option"

record os_env =
  can_read :: "string \<Rightarrow> bool"
  can_write :: "string \<Rightarrow> bool"
  can_remove :: "string \<Rightarrow> bool"
  now_isoformat :: string
  now_stamp :: string

definition path_exists :: "disk \<Rightarrow> string \<Rightarrow> bool" where
  "path_exists dsk path = (dsk path \<noteq> None)"

text \<open>\<open>os.path.join\<close> of two components (POSIX).\<close>

definition path_join :: "string \<Rightarrow> string \<Rightarrow> string" where
  "path_join a b =
     (if b \<noteq> [] \<and> hd b = CHR ''/'' then b
      else if a = [] \<or> last a = CHR ''/'' then a @ b
      else a @ ''/'' @ b)"

definition get_index_path :: "engine \<Rightarrow> string \<Rightarrow> string \<times> string" where
  "get_index_path st index_name =
     (path_join (index_dir st) (index_name @ ''.faiss''),
      path_join (index_dir st) (index_name @ ''_metadata.pkl''))"

definition faiss_read_index :: "os_env \<Rightarrow> disk \<Rightarrow> string \<Rightarrow> py_error + faiss" where
  "faiss_read_index env dsk path =
     (if \<not> can_read env path then Inl OSError
      else (case dsk path of Some (FaissFile idx) \<Rightarrow> Inr idx | _ \<Rightarrow> Inl OSError))"

definition pickle_load :: "os_env \<Rightarrow> disk \<Rightarrow> string \<Rightarrow> py_error + metadata" where
  "pickle_load env dsk path =
     (if \<not> can_read env path then Inl OSError
      else (case dsk path of Some (PickleFile md) \<Rightarrow> Inr md | _ \<Rightarrow> Inl UnpicklingError))"

definition faiss_write_index :: "os_env \<Rightarrow> faiss \<Rightarrow> string \<Rightarrow> disk \<Rightarrow> py_error + disk" where
  "faiss_write_index env idx path dsk =
     (if can_write env path then Inr (dsk(path \<mapsto> FaissFile idx)) else Inl OSError)"

definition pickle_dump :: "os_env \<Rightarrow> metadata \<Rightarrow> string \<Rightarrow> disk \<Rightarrow> py_error + disk" where
  "pickle_dump env md path dsk =
     (if can_write env path then Inr (dsk(path \<mapsto> PickleFile md)) else Inl OSError)"

definition os_remove :: "os_env \<Rightarrow> string \<Rightarrow> disk \<Rightarrow> py_error + disk" where
  "os_remove env path dsk =
     (if path_exists dsk path \<and> can_remove env path then Inr (dsk(path := None))
      else Inl OSError)"

section \<open>Persistence\<close>

definition clear_index :: "engine \<Rightarrow> engine" where
  "clear_index st = st\<lparr>chunks := [], faiss_index := None, index_to_chunk_map := []\<rparr>"

text \<open>
  The engine after \<open>_load_index\<close>, which assigns to \<open>self.chunks\<close> and to
  \<open>self.index_to_chunk_map\<close> what the metadata dict holds, of whatever type. \<open>Typed st\<close> is
  the engine \<open>st\<close>, its attributes of their declared types; \<open>Untyped st cs m\<close> is the
  engine \<open>st\<close> except that \<open>self.chunks\<close> is \<open>cs\<close> and \<open>self.index_to_chunk_map\<close> is \<open>m\<close>.
\<close>

datatype engine_state =
  Typed engine | Untyped engine "chunk list unpickled" "(int \<times> int) list unpickled"

fun with_loaded ::
  "engine \<Rightarrow> chunk list unpickled \<Rightarrow> (int \<times> int) list unpickled \<Rightarrow> engine_state"
where
  "with_loaded st (Expected cs) (Expected m) = Typed (st\<lparr>chunks := cs, index_to_chunk_map := m\<rparr>)"
| "with_loaded st cs m = Untyped st cs m"

text \<open>
  \<open>_load_index\<close>: the result and the engine after the call. The \<open>try\<close> block assigns
  \<open>self.faiss_index\<close>, then \<open>self.chunks\<close>, then \<open>self.index_to_chunk_map\<close>, and then
  evaluates \<open>len(self.chunks)\<close> for the message that it prints. Every exception of the
  block is caught; the assignments made before it stay.
\<close>

definition load_index :: "os_env \<Rightarrow> engine \<Rightarrow> disk \<Rightarrow> string \<Rightarrow> bool \<times> engine_state" where
  "load_index env st dsk index_name =
     (case get_index_path st index_name of (faiss_path, metadata_path) \<Rightarrow>
        if path_exists dsk faiss_path \<and> path_exists dsk metadata_path
        then (case faiss_read_index env dsk faiss_path of
                Inl err \<Rightarrow> (False, Typed st)
              | Inr idx \<Rightarrow>
                  (case pickle_load env dsk metadata_path of
                     Inl err \<Rightarrow> (False, Typed (st\<lparr>faiss_index := Some idx\<rparr>))
                   | Inr md \<Rightarrow>
                       (case md_chunks md of
                          None \<Rightarrow> (False, Typed (st\<lparr>faiss_index := Some idx\<rparr>))
                        | Some cs \<Rightarrow>
                            (case md_index_to_chunk_map md of
                               None \<Rightarrow>
                                 (False, with_loaded (st\<lparr>faiss_index := Some idx\<rparr>) cs
                                           (Expected (index_to_chunk_map st)))
                             | Some m \<Rightarrow>
                                 (case py_len cs of
                                    Inl err \<Rightarrow>
                                      (False, with_loaded (st\<lparr>faiss_index := Some idx\<rparr>) cs m)
                                  | Inr n \<Rightarrow>
                                      (True, with_loaded (st\<lparr>faiss_index := Some idx\<rparr>) cs m))))))
        else (False, Typed st))"

text \<open>
  \<open>_save_index\<close>: the disk after the call (the engine is not changed). An exception of
  either write is caught and printed; what was written before it stays.
\<close>

definition save_index :: "os_env \<Rightarrow> engine \<Rightarrow> disk \<Rightarrow> string \<Rightarrow> disk" where
  "save_index env st dsk index_name =
     (case faiss_index st of
        None \<Rightarrow> dsk
      | Some idx \<Rightarrow>
          if length (chunks st) = 0 then dsk
          else (case get_index_path st index_name of (faiss_path, metadata_path) \<Rightarrow>
                  (case faiss_write_index env idx faiss_path dsk of
                     Inl err \<Rightarrow> dsk
                   | Inr dsk1 \<Rightarrow>
                       (case pickle_dump env
                               \<lparr>md_chunks = Some (Expected (chunks st)),
                                md_index_to_chunk_map = Some (Expected (index_to_chunk_map st)),
                                md_created_at = Some (now_isoformat env),
                                md_num_chunks = Some (int (length (chunks st)))\<rparr>
                               metadata_path dsk1 of
                          Inl err \<Rightarrow> dsk1
                        | Inr dsk2 \<Rightarrow> dsk2))))"
text \<open>\<open>delete_index\<close>: the result and the disk after the call.\<close>

definition delete_index :: "os_env \<Rightarrow> engine \<Rightarrow> disk \<Rightarrow> string \<Rightarrow> bool \<times> disk" where
  "delete_index env st dsk index_name =
     (case get_index_path st index_name of (faiss_path, metadata_path) \<Rightarrow>
        (case (if path_exists dsk faiss_path then os_remove env faiss_path dsk else Inr dsk) of
           Inl err \<Rightarrow> (False, dsk)
         | Inr dsk1 \<Rightarrow>
             (case (if path_exists dsk1 metadata_path then os_remove env metadata_path dsk1
                    else Inr dsk1) of
                Inl err \<Rightarrow> (False, dsk1)
              | Inr dsk2 \<Rightarrow> (True, dsk2))))"

section \<open>Retrieval\<close>

text \<open>
  \<open>retrieve_relevant_chunks\<close>. \<open>if source_filter:\<close> filters only on a filter that is
  neither \<open>None\<close> nor the empty string. A sort of two or more similarities with \<open>nan\<close>
  among them is outside the model: every comparison with \<open>nan\<close> is false, so the list
  that the sort leaves depends on the comparisons that the sort algorithm makes, and the
  model stops with \<open>NotANumber\<close>.
\<close>

definition retrieve_relevant_chunks ::
  "numpy \<Rightarrow> (string \<Rightarrow> py_error + real list) \<Rightarrow> engine \<Rightarrow> string \<Rightarrow> int \<Rightarrow> string option \<Rightarrow>
   py_error + chunk list"
where
  "retrieve_relevant_chunks np get_embedding st query top_k source_filter =
     (case get_embedding query of
        Inl err \<Rightarrow> Inl err
      | Inr query_embedding \<Rightarrow>
          (let filtered_chunks =
                 (if truthy source_filter
                  then filter (\<lambda>c. Some (source c) = source_filter) (chunks st)
                  else chunks st)
           in (case similarities_loop np query_embedding filtered_chunks of
                 Inl err \<Rightarrow> Inl err
               | Inr similarities \<Rightarrow>
                   if 1 < length similarities \<and> list_ex (\<lambda>x. snd x = NaN) similarities
                   then Inl NotANumber
                   else Inr (map fst (slice_to (sort_by_similarity similarities) top_k)))))"

text \<open>\<open>xs[i]\<close> for a Python \<open>int\<close> \<open>i\<close>: a negative \<open>i\<close> counts from the end.\<close>

definition py_index :: "'a list \<Rightarrow> int \<Rightarrow> py_error + 'a" where
  "py_index xs i =
     (if 0 \<le> i \<and> i < int (length xs) then Inr (xs ! nat i)
      else if i < 0 \<and> - int (length xs) \<le> i then Inr (xs ! nat (int (length xs) + i))
      else Inl IndexError)"

text \<open>
  The loop \<open>for idx in indices[0]\<close> of \<open>retrieve_relevant_chunks_faiss\<close>, with
  \<open>relevant_chunks\<close> passed along; \<open>break\<close> ends it.
\<close>

fun faiss_result_loop ::
  "engine \<Rightarrow> int \<Rightarrow> string option \<Rightarrow> chunk list \<Rightarrow> int list \<Rightarrow> py_error + chunk list"
where
  "faiss_result_loop st top_k source_filter relevant_chunks [] = Inr relevant_chunks"
| "faiss_result_loop st top_k source_filter relevant_chunks (idx # indices) =
     (if idx = - 1 then faiss_result_loop st top_k source_filter relevant_chunks indices
      else (case map_of (index_to_chunk_map st) idx of
              None \<Rightarrow> faiss_result_loop st top_k source_filter relevant_chunks indices
            | Some chunk_idx \<Rightarrow>
                (if chunk_idx < int (length (chunks st))
                 then (case py_index (chunks st) chunk_idx of
                         Inl err \<Rightarrow> Inl err
                       | Inr c \<Rightarrow>
                           (let relevant_chunks' =
                                  (if source_filter = None \<or> Some (source c) = source_filter
                                   then relevant_chunks @ [c] else relevant_chunks)
                            in if int (length relevant_chunks') \<ge> top_k
                               then Inr relevant_chunks'
                               else faiss_result_loop st top_k source_filter
                                      relevant_chunks' indices))
                 else faiss_result_loop st top_k source_filter relevant_chunks indices)))"

text \<open>
  \<open>retrieve_relevant_chunks_faiss\<close>. The search of the FAISS library is the parameter
  \<open>search\<close>: the index, the query vector and the number of neighbours give the
  identifiers found, or an exception.
\<close>

definition retrieve_relevant_chunks_faiss ::
  "numpy \<Rightarrow> (string \<Rightarrow> py_error + real list) \<Rightarrow>
   (faiss \<Rightarrow> real list \<Rightarrow> int \<Rightarrow> py_error + int list) \<Rightarrow>
   engine \<Rightarrow> string \<Rightarrow> int \<Rightarrow> string option \<Rightarrow> py_error + chunk list"
where
  "retrieve_relevant_chunks_faiss np get_embedding search st query top_k source_filter =
     (case faiss_index st of
        None \<Rightarrow> retrieve_relevant_chunks np get_embedding st query top_k source_filter
      | Some idx \<Rightarrow>
          if ntotal idx = 0
          then retrieve_relevant_chunks np get_embedding st query top_k source_filter
          else (case get_embedding query of
                  Inl err \<Rightarrow> Inl err
                | Inr query_embedding \<Rightarrow>
                    (case search idx query_embedding (min (top_k * 2) (int (ntotal idx))) of
                       Inl err \<Rightarrow> Inl err
                     | Inr indices \<Rightarrow> faiss_result_loop st top_k source_filter [] indices)))"

section \<open>Indexing\<close>

text \<open>\<open>embed_chunks\<close>: the first failing embedding call ends the loop with its exception.\<close>

fun embed_chunks ::
  "(string \<Rightarrow> py_error + real list) \<Rightarrow> chunk list \<Rightarrow> py_error + chunk list"
where
  "embed_chunks get_embedding [] = Inr []"
| "embed_chunks get_embedding (c # cs) =
     (case get_embedding (text_c c) of
        Inl err \<Rightarrow> Inl err
      | Inr v \<Rightarrow>
          (case embed_chunks get_embedding cs of
             Inl err \<Rightarrow> Inl err
           | Inr cs' \<Rightarrow> Inr (c\<lparr>embedding := Some v\<rparr> # cs')))"

text \<open>\<open>index_ats_rules\<close>: the loop over the rule categories, then the method.\<close>

fun index_rules ::
  "(string \<Rightarrow> py_error + real list) \<Rightarrow> engine \<Rightarrow> ats_rule list \<Rightarrow> py_error + engine"
where
  "index_rules get_embedding st [] = Inr st"
| "index_rules get_embedding st (rule_category # rest) =
     (case embed_chunks get_embedding
             (chunk_text (category rule_category @ '': '' @ join '' '' (rules rule_category))
                ''ats_rules'' (category rule_category) 500) of
        Inl err \<Rightarrow> Inl err
      | Inr cs \<Rightarrow> index_rules get_embedding (st\<lparr>chunks := chunks st @ cs\<rparr>) rest)"

definition index_ats_rules ::
  "(string \<Rightarrow> py_error + real list) \<Rightarrow> engine \<Rightarrow> py_error + engine"
where
  "index_ats_rules get_embedding st = index_rules get_embedding st (ats_rules st)"

text \<open>
  \<open>np.array(all_embeddings, dtype=np.float32)\<close> raises \<open>ValueError\<close> on rows of different
  lengths; \<open>IndexFlatL2.add\<close> asserts that the rows have the dimension of the index.
\<close>

definition np_array :: "real list list \<Rightarrow> py_error + real list list" where
  "np_array rows =
     (if list_all (\<lambda>r. length r = length (hd rows)) rows then Inr rows else Inl ValueError)"

definition faiss_add :: "faiss \<Rightarrow> real list list \<Rightarrow> py_error + faiss" where
  "faiss_add idx rows =
     (if list_all (\<lambda>r. length r = faiss_d idx) rows
      then Inr (idx\<lparr>faiss_vectors := faiss_vectors idx @ rows\<rparr>)
      else Inl AssertionError)"

definition new_faiss_index :: "engine \<Rightarrow> faiss" where
  "new_faiss_index st = \<lparr>faiss_d = embedding_dim st, faiss_vectors = []\<rparr>"

definition initialize_faiss_index :: "engine \<Rightarrow> engine" where
  "initialize_faiss_index st = st\<lparr>faiss_index := Some (new_faiss_index st)\<rparr>"

text \<open>
  \<open>_add_to_faiss_index\<close>, after the index is there: \<open>idx\<close> is \<open>self.faiss_index\<close>. The
  loop \<open>for i, chunk_idx in enumerate(chunk_indices)\<close> is a fold over the enumerated
  list.
\<close>

definition add_vectors :: "engine \<Rightarrow> faiss \<Rightarrow> real list list \<Rightarrow> int list \<Rightarrow> py_error + engine" where
  "add_vectors st idx embeddings chunk_indices =
     (let start_idx = ntotal idx
      in (case faiss_add idx embeddings of
            Inl err \<Rightarrow> Inl err
          | Inr idx' \<Rightarrow>
              Inr (st\<lparr>faiss_index := Some idx',
                      index_to_chunk_map :=
                        fold (\<lambda>(i, chunk_idx) m.
                                AList.update (int start_idx + int i) chunk_idx m)
                          (enumerate 0 chunk_indices) (index_to_chunk_map st)\<rparr>)))"

definition add_to_faiss_index :: "engine \<Rightarrow> real list list \<Rightarrow> int list \<Rightarrow> py_error + engine" where
  "add_to_faiss_index st embeddings chunk_indices =
     (case faiss_index st of
        None \<Rightarrow>
          add_vectors (initialize_faiss_index st) (new_faiss_index st) embeddings chunk_indices
      | Some idx \<Rightarrow> add_vectors st idx embeddings chunk_indices)"

text \<open>
  The loop \<open>for chunk in chunks\<close> of both FAISS indexing methods, over the state
  \<open>(engine, all_embeddings, chunk_indices)\<close>.
\<close>

fun embed_and_collect ::
  "(string \<Rightarrow> py_error + real list) \<Rightarrow> engine \<times> real list list \<times> int list \<Rightarrow> chunk list \<Rightarrow>
   py_error + engine \<times> real list list \<times> int list"
where
  "embed_and_collect get_embedding state [] = Inr state"
| "embed_and_collect get_embedding state (c # cs) =
     (case state of (st, all_embeddings, chunk_indices) \<Rightarrow>
        (case get_embedding (text_c c) of
           Inl err \<Rightarrow> Inl err
         | Inr v \<Rightarrow>
             (let st' = st\<lparr>chunks := chunks st @ [c\<lparr>embedding := Some v\<rparr>]\<rparr>
              in embed_and_collect get_embedding
                   (st', all_embeddings @ [v],
                    chunk_indices @ [int (length (chunks st')) - 1]) cs)))"

text \<open>The loop \<open>for section_name, section_text in sections.items()\<close>.\<close>

fun index_sections ::
  "(string \<Rightarrow> py_error + real list) \<Rightarrow> engine \<times> real list list \<times> int list \<Rightarrow>
   (string \<times> string) list \<Rightarrow> py_error + engine \<times> real list list \<times> int list"
where
  "index_sections get_embedding state [] = Inr state"
| "index_sections get_embedding state ((section_name, section_text) # sections) =
     (case embed_and_collect get_embedding state
             (chunk_text section_text ''resume'' section_name 500) of
        Inl err \<Rightarrow> Inl err
      | Inr state' \<Rightarrow> index_sections get_embedding state' sections)"

text \<open>
  The end of both FAISS indexing methods: the batch insertion when there is an
  embedding, then the save.
\<close>

definition insert_and_save ::
  "os_env \<Rightarrow> engine \<times> real list list \<times> int list \<Rightarrow> disk \<Rightarrow> bool \<Rightarrow> string \<Rightarrow>
   py_error + engine \<times> disk"
where
  "insert_and_save env state dsk save index_name =
     (case state of (st, all_embeddings, chunk_indices) \<Rightarrow>
        (case (if all_embeddings \<noteq> []
               then (case np_array all_embeddings of
                       Inl err \<Rightarrow> Inl err
                     | Inr embeddings_array \<Rightarrow>
                         add_to_faiss_index st embeddings_array chunk_indices)
               else Inr st) of
           Inl err \<Rightarrow> Inl err
         | Inr st' \<Rightarrow> Inr (st', if save then save_index env st' dsk index_name else dsk)))"

definition index_resume_with_faiss ::
  "os_env \<Rightarrow> (string \<Rightarrow> py_error + real list) \<Rightarrow> engine \<Rightarrow> disk \<Rightarrow> string \<Rightarrow> bool \<Rightarrow> string \<Rightarrow>
   py_error + engine \<times> disk"
where
  "index_resume_with_faiss env get_embedding st dsk resume_text save index_name =
     (case index_sections get_embedding (clear_index st, [], []) (detect_sections resume_text) of
        Inl err \<Rightarrow> Inl err
      | Inr state \<Rightarrow> insert_and_save env state dsk save index_name)"

definition index_job_description_with_faiss ::
  "os_env \<Rightarrow> (string \<Rightarrow> py_error + real list) \<Rightarrow> engine \<Rightarrow> disk \<Rightarrow> string \<Rightarrow> bool \<Rightarrow> string \<Rightarrow>
   py_error + engine \<times> disk"
where
  "index_job_description_with_faiss env get_embedding st dsk jd_text save index_name =
     (case embed_and_collect get_embedding (st, [], [])
             (chunk_text jd_text ''job_description'' ''requirements'' 500) of
        Inl err \<Rightarrow> Inl err
      | Inr state \<Rightarrow> insert_and_save env state dsk save index_name)"

text \<open>
  \<open>analyze_with_rag_faiss\<close> up to and with the call of \<open>index_ats_rules\<close>: the indexing
  of the analysis. The retrieval, the context and the generation that follow do not
  write to the engine.
\<close>

definition analyze_with_rag_faiss_indexing ::
  "os_env \<Rightarrow> (string \<Rightarrow> py_error + real list) \<Rightarrow> engine \<Rightarrow> disk \<Rightarrow> string \<Rightarrow> string option \<Rightarrow>
   string option \<Rightarrow> py_error + engine \<times> disk"
where
  "analyze_with_rag_faiss_indexing env get_embedding st dsk resume_text job_description index_name =
     (let index_name' =
            (case index_name of None \<Rightarrow> ''session_'' @ now_stamp env | Some n \<Rightarrow> n)
      in (case index_resume_with_faiss env get_embedding (clear_index st) dsk resume_text True
                 index_name' of
            Inl err \<Rightarrow> Inl err
          | Inr (st1, dsk1) \<Rightarrow>
              (case (case job_description of
                       None \<Rightarrow> Inr (st1, dsk1)
                     | Some jd \<Rightarrow>
                         if jd \<noteq> []
                         then index_job_description_with_faiss env get_embedding st1 dsk1 jd True
                                index_name'
                         else Inr (st1, dsk1)) of
                 Inl err \<Rightarrow> Inl err
               | Inr (st2, dsk2) \<Rightarrow>
                   (case index_ats_rules get_embedding st2 of
                      Inl err \<Rightarrow> Inl err
                    | Inr st3 \<Rightarrow> Inr (st3, dsk2)))))"

section \<open>Predicates of the statements\<close>

text \<open>\<open>a < b\<close> on \<open>float64\<close>; every comparison with \<open>nan\<close> is false.\<close>

fun float64_less :: "float64 \<Rightarrow> float64 \<Rightarrow> bool" where
  "float64_less (Finite a) (Finite b) = (a < b)"
| "float64_less NegInf (Finite b) = True"
| "float64_less NegInf PosInf = True"
| "float64_less (Finite a) PosInf = True"
| "float64_less a b = False"

text \<open>A chunk that the loop of \<open>retrieve_relevant_chunks\<close> does not skip.\<close>

definition has_embedding :: "chunk \<Rightarrow> bool" where
  "has_embedding c = (case embedding c of None \<Rightarrow> False | Some e \<Rightarrow> e \<noteq> [])"

text \<open>
  The value that \<open>cosine_similarity\<close> returns for the query embedding and the embedding
  of a chunk, where it returns one; the ranking is stated with it.
\<close>

definition similarity :: "numpy \<Rightarrow> real list \<Rightarrow> chunk \<Rightarrow> float64" where
  "similarity np query_embedding c =
     (case embedding c of
        None \<Rightarrow> NaN
      | Some e \<Rightarrow>
          float64_div np (np_dot np query_embedding e)
            (float64_mul np (np_linalg_norm np query_embedding) (np_linalg_norm np e)))"

text \<open>A text that \<open>strip\<close> has produced and kept: not empty, and not ending in whitespace.\<close>

definition trimmed :: "string \<Rightarrow> bool" where
  "trimmed t = (t \<noteq> [] \<and> \<not> isspace (last t))"

text \<open>
  \<open>woven pre ts\<close>: the string \<open>pre\<close> is the texts \<open>ts\<close> in order, each after a gap of
  whitespace, and a last gap of whitespace.
\<close>

definition woven :: "string \<Rightarrow> string list \<Rightarrow> bool" where
  "woven pre ts =
     (\<exists>gaps final. length gaps = length ts \<and> list_all isspace (concat gaps @ final) \<and>
        pre = concat (map (\<lambda>(g, t). g @ t) (zip gaps ts)) @ final)"

text \<open>The number of vectors in the store of an engine; none when there is no index.\<close>

definition vector_count :: "engine \<Rightarrow> nat" where
  "vector_count st = (case faiss_index st of None \<Rightarrow> 0 | Some idx \<Rightarrow> ntotal idx)"

text \<open>
  The state that the FAISS indexing methods keep: every chunk has its vector, the
  identifier of a vector is the position of its chunk, and every chunk comes from the
  resume or the job description.
\<close>

definition indexed_state :: "engine \<Rightarrow> bool" where
  "indexed_state st =
     (vector_count st = length (chunks st) \<and>
      index_to_chunk_map st = map (\<lambda>i. (int i, int i)) [0..<length (chunks st)] \<and>
      list_all (\<lambda>c. source c = ''resume'' \<or> source c = ''job_description'') (chunks st))"

section \<open>Example data\<close>

text \<open>
  A small engine for the concrete instances below: vectors of dimension 2, three resume
  chunks and one chunk of the job description, all four in the vector store. The
  provider of the examples embeds every text as \<open>(1, 0)\<close>, so the first, third and fourth
  chunk have similarity 1 to every query and the second has similarity 0.
\<close>

definition example_chunks :: "chunk list" where
  "example_chunks =
     [\<lparr>text_c = ''Python, Go'', source = ''resume'', section_c = ''skills'',
       embedding = Some [1, 0]\<rparr>,
      \<lparr>text_c = ''BSc'', source = ''resume'', section_c = ''education'',
       embedding = Some [0, 1]\<rparr>,
      \<lparr>text_c = ''Built a cache.'', source = ''resume'', section_c = ''experience'',
       embedding = Some [1, 0]\<rparr>,
      \<lparr>text_c = ''Go developer'', source = ''job_description'', section_c = ''requirements'',
       embedding = Some [1, 0]\<rparr>]"

definition example_index :: faiss where
  "example_index = \<lparr>faiss_d = 2, faiss_vectors = [[1, 0], [0, 1], [1, 0], [1, 0]]\<rparr>"

definition example_engine :: engine where
  "example_engine =
     \<lparr>chunks = example_chunks, index_dir = ''faiss_indexes'', embedding_dim = 2,
      faiss_index = Some example_index,
      index_to_chunk_map = [(0, 0), (1, 1), (2, 2), (3, 3)],
      ats_rules = load_ats_rules\<rparr>"

definition example_env :: os_env where
  "example_env =
     \<lparr>can_read = (\<lambda>path. True), can_write = (\<lambda>path. True), can_remove = (\<lambda>path. True),
      now_isoformat = ''2024-01-01T00:00:00'', now_stamp = ''20240101_000000''\<rparr>"

text \<open>
  The arithmetic of the examples: the exact sum, product, root and quotient on finite
  values (a quotient by zero as one by \<open>0.0\<close>), and \<open>nan\<close> elsewhere. On the vectors of
  the example engine, \<open>(1, 0)\<close> and \<open>(0, 1)\<close>, every one of these results is 0 or 1, so
  \<open>float64\<close> arithmetic gives the same values; the examples reach no other case.
\<close>

definition example_numpy :: numpy where
  "example_numpy =
     \<lparr>np_dot = (\<lambda>vec1 vec2. Finite (sum_list (map (\<lambda>(a, b). a * b) (zip vec1 vec2)))),
      np_linalg_norm = (\<lambda>vec. Finite (sqrt (sum_list (map (\<lambda>a. a * a) vec)))),
      float64_mul = (\<lambda>a b. case (a, b) of (Finite x, Finite y) \<Rightarrow> Finite (x * y) | _ \<Rightarrow> NaN),
      float64_div =
        (\<lambda>a b. case (a, b) of
                  (Finite x, Finite y) \<Rightarrow>
                    if y \<noteq> 0 then Finite (x / y)
                    else if x = 0 then NaN else if 0 < x then PosInf else NegInf
                | _ \<Rightarrow> NaN)\<rparr>"

definition example_get_embedding :: "string \<Rightarrow> py_error + real list" where
  "example_get_embedding txt = Inr [1, 0]"

definition example_search :: "faiss \<Rightarrow> real list \<Rightarrow> int \<Rightarrow> py_error + int list" where
  "example_search idx query_vector k = Inl SearchError"

section \<open>The chunker on the three-paragraph scenario\<close>

text \<open>
  C3 (counterexample). With the bound 20 the input of three ten-character paragraphs
  does not give the two chunks \<open>AAAAAAAAAA\n\nBBBBBBBBBB\<close> and \<open>CCCCCCCCCC\<close>: the buffer
  holds the first paragraph and its separator (12 characters) when the second one
  arrives, and 12 + 10 is not below 20.
\<close>

theorem chunk_text_scenario_not_two_chunks:
  "map text_c
     (chunk_text ''AAAAAAAAAA\<newline>\<newline>BBBBBBBBBB\<newline>\<newline>CCCCCCCCCC''
        ''resume'' ''general'' 20) \<noteq>
   [''AAAAAAAAAA\<newline>\<newline>BBBBBBBBBB'', ''CCCCCCCCCC'']"
  by (simp add: chunk_text_def close_chunk_def strip_def isspace_def)

text \<open>
  C3 (amended). With the bound 20 the same input gives exactly three chunks, one for
  each paragraph, in order, each with the given source and section and no embedding.
\<close>

theorem chunk_text_scenario_three_chunks:
  "chunk_text ''AAAAAAAAAA\<newline>\<newline>BBBBBBBBBB\<newline>\<newline>CCCCCCCCCC'' src sec 20 =
     [\<lparr>text_c = ''AAAAAAAAAA'', source = src, section_c = sec, embedding = None\<rparr>,
      \<lparr>text_c = ''BBBBBBBBBB'', source = src, section_c = sec, embedding = None\<rparr>,
      \<lparr>text_c = ''CCCCCCCCCC'', source = src, section_c = sec, embedding = None\<rparr>]"
  by (simp add: chunk_text_def close_chunk_def strip_def isspace_def)

section \<open>The chunker: proofs\<close>

lemma woven_Nil: "woven [] []"
  by (simp add: woven_def)

lemma woven_extend:
  assumes "woven pre ts" and "list_all isspace w"
  shows "woven (pre @ w) ts"
proof -
  from assms(1) obtain gaps final where g: "length gaps = length ts"
    "list_all isspace (concat gaps @ final)"
    "pre = concat (map (\<lambda>(g, t). g @ t) (zip gaps ts)) @ final"
    by (auto simp: woven_def)
  have "length gaps = length ts \<and> list_all isspace (concat gaps @ (final @ w)) \<and>
      pre @ w = concat (map (\<lambda>(g, t). g @ t) (zip gaps ts)) @ (final @ w)"
    using g assms(2) by simp
  then show ?thesis unfolding woven_def by blast
qed

lemma woven_snoc:
  assumes "woven pre ts" and "list_all isspace l" and "list_all isspace r"
  shows "woven (pre @ l @ t @ r) (ts @ [t])"
proof -
  from assms(1) obtain gaps final where g: "length gaps = length ts"
    "list_all isspace (concat gaps @ final)"
    "pre = concat (map (\<lambda>(g, t). g @ t) (zip gaps ts)) @ final"
    by (auto simp: woven_def)
  have "length (gaps @ [final @ l]) = length (ts @ [t]) \<and>
      list_all isspace (concat (gaps @ [final @ l]) @ r) \<and>
      pre @ l @ t @ r = concat (map (\<lambda>(g, t). g @ t) (zip (gaps @ [final @ l]) (ts @ [t]))) @ r"
    using g assms(2,3) by simp
  then show ?thesis unfolding woven_def by blast
qed

lemma strip_decompose:
  "\<exists>l r. list_all isspace l \<and> list_all isspace r \<and> s = l @ strip s @ r"
proof -
  define d where "d = dropWhile isspace s"
  have 1: "s = takeWhile isspace s @ d" by (simp add: d_def)
  have "rev (takeWhile isspace (rev d) @ dropWhile isspace (rev d)) = rev (rev d)"
    by (simp only: takeWhile_dropWhile_id)
  then have 2: "d = strip s @ rev (takeWhile isspace (rev d))"
    by (simp only: rev_append rev_rev_ident strip_def d_def)
  have 3: "list_all isspace (takeWhile isspace s)"
    by (auto simp: list_all_iff dest: set_takeWhileD)
  have 4: "list_all isspace (rev (takeWhile isspace (rev d)))"
    by (auto simp: list_all_iff dest: set_takeWhileD)
  have "s = takeWhile isspace s @ strip s @ rev (takeWhile isspace (rev d))"
    using 1 2 by simp
  then show ?thesis using 3 4 by blast
qed

lemma strip_last: "strip s \<noteq> [] \<Longrightarrow> \<not> isspace (last (strip s))"
  by (simp add: strip_def last_rev hd_dropWhile)

lemma woven_close_chunk:
  assumes "woven pre (map text_c acc)"
  shows "woven (pre @ cur) (map text_c (close_chunk src sec acc cur))"
proof -
  obtain l r where lr: "list_all isspace l" "list_all isspace r" "cur = l @ strip cur @ r"
    using strip_decompose by blast
  show ?thesis
  proof (cases "strip cur = []")
    case True
    then have "list_all isspace cur" using lr by (metis append_Nil list_all_append)
    then show ?thesis using True assms by (simp add: close_chunk_def woven_extend)
  next
    case False
    have "woven (pre @ l @ strip cur @ r) (map text_c acc @ [strip cur])"
      by (rule woven_snoc[OF assms lr(1,2)])
    then show ?thesis using False lr(3) by (simp add: close_chunk_def)
  qed
qed

lemma woven_chunk_loop:
  assumes "woven pre (map text_c acc)"
    and "chunk_loop src sec n acc cur paras = (acc', cur')"
  shows "\<exists>pre'. woven pre' (map text_c acc') \<and>
           pre' @ cur' = pre @ cur @ concat (map (\<lambda>p. p @ ''\<newline>\<newline>'') paras)"
  using assms
proof (induction paras arbitrary: pre acc cur)
  case Nil
  then show ?case by auto
next
  case (Cons para paras)
  show ?case
  proof (cases "int (length cur) + int (length para) < n")
    case True
    then have "chunk_loop src sec n acc (cur @ para @ ''\<newline>\<newline>'') paras = (acc', cur')"
      using Cons.prems(2) by simp
    from Cons.IH[OF Cons.prems(1) this] show ?thesis by simp
  next
    case False
    then have "chunk_loop src sec n (close_chunk src sec acc cur) (para @ ''\<newline>\<newline>'') paras = (acc', cur')"
      using Cons.prems(2) by simp
    from Cons.IH[OF woven_close_chunk[OF Cons.prems(1)] this] show ?thesis by simp
  qed
qed

lemma split_sep_not_Nil: "split_sep sep s \<noteq> []"
  by (induction sep s rule: split_sep.induct) (auto split: list.splits)

lemma concat_split_sep: "concat (map (\<lambda>p. p @ sep) (split_sep sep s)) = s @ sep"
proof (induction sep s rule: split_sep.induct)
  case (1 sep)
  then show ?case by simp
next
  case (2 sep c cs)
  show ?case
  proof (cases "sep \<noteq> [] \<and> prefix sep (c # cs)")
    case True
    then obtain zs where zs: "c # cs = sep @ zs" by (auto simp: prefix_def)
    then have d: "drop (length sep) (c # cs) = zs" by simp
    have "concat (map (\<lambda>p. p @ sep) (split_sep sep zs)) = zs @ sep"
      using 2(1)[OF True] d by simp
    then have "concat (map (\<lambda>p. p @ sep) (split_sep sep (c # cs))) = sep @ zs @ sep"
      using True d by simp
    then show ?thesis using zs by simp
  next
    case False
    then show ?thesis using 2(2)[OF False] split_sep_not_Nil[of sep cs]
      by (auto split: list.splits)
  qed
qed

lemma close_chunk_trimmed:
  "list_all (\<lambda>c. trimmed (text_c c)) acc \<Longrightarrow>
   list_all (\<lambda>c. trimmed (text_c c)) (close_chunk src sec acc cur)"
  by (simp add: close_chunk_def trimmed_def strip_last)

lemma chunk_loop_trimmed:
  "list_all (\<lambda>c. trimmed (text_c c)) acc \<Longrightarrow>
   chunk_loop src sec n acc cur paras = (acc', cur') \<Longrightarrow>
   list_all (\<lambda>c. trimmed (text_c c)) acc'"
proof (induction paras arbitrary: acc cur)
  case Nil
  then show ?case by simp
next
  case (Cons para paras)
  then show ?case
    by (auto split: if_splits dest: close_chunk_trimmed)
qed

lemma chunk_text_trimmed: "list_all (\<lambda>c. trimmed (text_c c)) (chunk_text txt src sec n)"
proof -
  obtain acc cur where l: "chunk_loop src sec n [] [] (split_sep ''\<newline>\<newline>'' txt) = (acc, cur)"
    by (cases "chunk_loop src sec n [] [] (split_sep ''\<newline>\<newline>'' txt)") auto
  have "list_all (\<lambda>c. trimmed (text_c c)) acc"
    by (rule chunk_loop_trimmed[OF _ l]) simp
  then show ?thesis using l by (simp add: chunk_text_def close_chunk_trimmed)
qed

lemma woven_chunk_text_sep:
  "woven (txt @ ''\<newline>\<newline>'') (map text_c (chunk_text txt src sec n))"
proof -
  obtain acc cur where l: "chunk_loop src sec n [] [] (split_sep ''\<newline>\<newline>'' txt) = (acc, cur)"
    by (cases "chunk_loop src sec n [] [] (split_sep ''\<newline>\<newline>'' txt)") auto
  have w0: "woven [] (map text_c [])" by (simp add: woven_Nil)
  from woven_chunk_loop[OF w0 l] obtain pre' where
    p: "woven pre' (map text_c acc)"
       "pre' @ cur = concat (map (\<lambda>p. p @ ''\<newline>\<newline>'') (split_sep ''\<newline>\<newline>'' txt))"
    by auto
  have "woven (pre' @ cur) (map text_c (close_chunk src sec acc cur))"
    by (rule woven_close_chunk[OF p(1)])
  then show ?thesis using l p(2) by (simp add: chunk_text_def concat_split_sep)
qed

lemma newline_isspace: "isspace CHR ''\<newline>''"
  by (simp add: isspace_def)

lemma body_last:
  assumes "length gaps = length ts" and "list_all trimmed ts" and "ts \<noteq> []"
  shows "concat (map (\<lambda>(g, t). g @ t) (zip gaps ts)) \<noteq> [] \<and>
         \<not> isspace (last (concat (map (\<lambda>(g, t). g @ t) (zip gaps ts))))"
  using assms
proof (induction gaps ts rule: list_induct2)
  case Nil
  then show ?case by simp
next
  case (Cons g gaps t ts)
  show ?case
  proof (cases "ts = []")
    case True
    then show ?thesis using Cons by (simp add: trimmed_def)
  next
    case False
    then show ?thesis using Cons by simp
  qed
qed

lemma drop_separator:
  assumes "body @ g = t @ ''\<newline>\<newline>''" and "list_all isspace g"
    and "body = [] \<or> \<not> isspace (last body)"
  shows "\<exists>g'. g = g' @ ''\<newline>\<newline>''"
proof -
  have "suffix ''\<newline>\<newline>'' (body @ g)" using assms(1) by (simp add: suffix_def)
  then consider "suffix ''\<newline>\<newline>'' g"
    | xs' where "''\<newline>\<newline>'' = xs' @ g" "suffix xs' body"
    by (auto simp: suffix_append)
  then show ?thesis
  proof cases
    case 1
    then show ?thesis by (auto simp: suffix_def)
  next
    case 2
    show ?thesis
    proof (cases "xs' = []")
      case True
      then show ?thesis using 2 by (metis append_Nil)
    next
      case False
      then have bn: "body \<noteq> []" using 2(2) by (auto simp: suffix_def)
      have "last body = last xs'" using 2(2) False by (auto simp: suffix_def)
      moreover have "set xs' \<subseteq> {CHR ''\<newline>''}"
      proof -
        have "set xs' \<subseteq> set (xs' @ g)" by simp
        then show ?thesis unfolding 2(1)[symmetric] by simp
      qed
      ultimately have "last body = CHR ''\<newline>''" using False last_in_set by fastforce
      then show ?thesis using assms(3) bn newline_isspace by simp
    qed
  qed
qed

lemma woven_drop_separator:
  assumes "woven (txt @ ''\<newline>\<newline>'') ts" and "list_all trimmed ts"
  shows "woven txt ts"
proof -
  from assms(1) obtain gaps final where g: "length gaps = length ts"
    "list_all isspace (concat gaps @ final)"
    "txt @ ''\<newline>\<newline>'' = concat (map (\<lambda>(g, t). g @ t) (zip gaps ts)) @ final"
    by (auto simp: woven_def)
  define body where "body = concat (map (\<lambda>(g, t). g @ t) (zip gaps ts))"
  have b: "body = [] \<or> \<not> isspace (last body)"
  proof (cases "ts = []")
    case True
    then show ?thesis by (simp add: body_def)
  next
    case False
    then show ?thesis using body_last[OF g(1) assms(2)] by (simp add: body_def)
  qed
  have f: "list_all isspace final" using g(2) by simp
  have eq: "body @ final = txt @ ''\<newline>\<newline>''" using g(3) by (simp add: body_def)
  obtain g' where g': "final = g' @ ''\<newline>\<newline>''"
    using drop_separator[OF eq f b] by blast
  have "txt = body @ g'" using g(3) g' by (simp add: body_def)
  moreover have "list_all isspace (concat gaps @ g')" using g(2) g' by simp
  ultimately show ?thesis using g(1) unfolding woven_def body_def by blast
qed

lemma filter_woven:
  assumes "length gaps = length ts" and "list_all isspace (concat gaps)"
  shows "filter (\<lambda>c. \<not> isspace c) (concat (map (\<lambda>(g, t). g @ t) (zip gaps ts))) =
         filter (\<lambda>c. \<not> isspace c) (concat ts)"
  using assms
proof (induction gaps ts rule: list_induct2)
  case Nil
  then show ?case by simp
next
  case (Cons g gaps t ts)
  have "filter (\<lambda>c. \<not> isspace c) g = []"
    using Cons.prems by (auto simp: list_all_iff filter_empty_conv)
  then show ?case using Cons by simp
qed

text \<open>
  C4. For every text, source, section and \<open>chunk_size\<close>, no chunk of \<open>chunk_text\<close> has an
  empty text. The input is the texts of the chunks in their order, each after a gap of
  whitespace and with a last gap of whitespace after them: only whitespace at the
  borders of the chunks is lost. So the characters of the input that are not
  whitespace are, in order, those of the concatenated chunk texts.
\<close>

theorem chunk_text_covers_input:
  "list_all (\<lambda>c. text_c c \<noteq> []) (chunk_text txt src sec chunk_size) \<and>
   (\<exists>gaps final.
      length gaps = length (chunk_text txt src sec chunk_size) \<and>
      list_all isspace (concat gaps @ final) \<and>
      txt = concat (map (\<lambda>(g, c). g @ text_c c)
                     (zip gaps (chunk_text txt src sec chunk_size))) @ final) \<and>
   filter (\<lambda>c. \<not> isspace c) (concat (map text_c (chunk_text txt src sec chunk_size))) =
     filter (\<lambda>c. \<not> isspace c) txt"
proof -
  define cs where "cs = chunk_text txt src sec chunk_size"
  have t: "list_all (\<lambda>c. trimmed (text_c c)) cs"
    unfolding cs_def by (rule chunk_text_trimmed)
  then have t': "list_all trimmed (map text_c cs)" by (simp add: list_all_iff)
  have ne: "list_all (\<lambda>c. text_c c \<noteq> []) cs"
    using t by (simp add: list_all_iff trimmed_def)
  have "woven txt (map text_c cs)"
    unfolding cs_def
    by (rule woven_drop_separator[OF woven_chunk_text_sep t'[unfolded cs_def]])
  then obtain gaps final where g: "length gaps = length cs"
    "list_all isspace (concat gaps @ final)"
    "txt = concat (map (\<lambda>(g, t). g @ t) (zip gaps (map text_c cs))) @ final"
    by (auto simp: woven_def)
  have z: "map (\<lambda>(g, t). g @ t) (zip gaps (map text_c cs)) =
           map (\<lambda>(g, c). g @ text_c c) (zip gaps cs)"
    by (simp add: zip_map2 case_prod_unfold)
  have cover: "txt = concat (map (\<lambda>(g, c). g @ text_c c) (zip gaps cs)) @ final"
    using g(3) z by simp
  have "filter (\<lambda>c. \<not> isspace c) txt =
        filter (\<lambda>c. \<not> isspace c) (concat (map (\<lambda>(g, t). g @ t) (zip gaps (map text_c cs))))"
  proof -
    have "filter (\<lambda>c. \<not> isspace c) final = []"
      using g(2) by (auto simp: list_all_iff filter_empty_conv)
    then show ?thesis by (subst g(3)) simp
  qed
  also have "\<dots> = filter (\<lambda>c. \<not> isspace c) (concat (map text_c cs))"
    by (rule filter_woven) (use g in simp_all)
  finally have fl: "filter (\<lambda>c. \<not> isspace c) (concat (map text_c cs)) =
     filter (\<lambda>c. \<not> isspace c) txt" by simp
  show ?thesis using ne g(1,2) cover fl unfolding cs_def by blast
qed

section \<open>Section detection: proofs\<close>

lemma find_section_found:
  "(find_section line_lower line table \<noteq> None) =
     (length (split_ws line) < 5 \<and>
      list_ex (\<lambda>keyword. sublist keyword line_lower) (concat (map snd table)))"
  by (induction table) (auto simp: list_ex_iff)

lemma sublist_dropWhile:
  assumes "kw \<noteq> []" and "\<not> P (hd kw)" and "sublist kw s"
  shows "sublist kw (dropWhile P s)"
  using assms(3)
proof (induction s)
  case Nil
  then show ?case using assms(1) by simp
next
  case (Cons x xs)
  show ?case
  proof (cases "P x")
    case True
    have "\<not> prefix kw (x # xs)"
    proof
      assume "prefix kw (x # xs)"
      then have "hd kw = x" using assms(1) by (cases kw) auto
      then show False using True assms(2) by simp
    qed
    then have "sublist kw xs" using Cons.prems by (simp add: sublist_Cons_right)
    then show ?thesis using True Cons.IH by simp
  next
    case False
    then show ?thesis using Cons.prems by simp
  qed
qed

lemma sublist_strip:
  assumes "kw \<noteq> []" and "\<not> isspace (hd kw)" and "\<not> isspace (last kw)"
  shows "sublist kw (strip s) = sublist kw s"
proof
  assume a: "sublist kw (strip s)"
  have "sublist (dropWhile isspace (rev (dropWhile isspace s))) (rev (dropWhile isspace s))"
    by (rule suffix_imp_sublist) (rule suffix_dropWhile)
  then have "sublist (strip s) (dropWhile isspace s)"
    unfolding strip_def using sublist_rev[of "dropWhile isspace (rev (dropWhile isspace s))" "rev (dropWhile isspace s)"]
    by simp
  moreover have "sublist (dropWhile isspace s) s"
    by (rule suffix_imp_sublist) (rule suffix_dropWhile)
  ultimately show "sublist kw s" using a by (meson sublist_order.order_trans)
next
  assume a: "sublist kw s"
  have 1: "sublist kw (dropWhile isspace s)"
    by (rule sublist_dropWhile[where P = isspace, OF assms(1,2) a])
  have "sublist (rev kw) (rev (dropWhile isspace s))" using 1 by simp
  moreover have "rev kw \<noteq> []" using assms(1) by simp
  moreover have "\<not> isspace (hd (rev kw))" using assms(1,3) by (simp add: hd_rev)
  ultimately have "sublist (rev kw) (dropWhile isspace (rev (dropWhile isspace s)))"
    by (intro sublist_dropWhile[where P = isspace])
  then have "sublist (rev (rev kw)) (rev (dropWhile isspace (rev (dropWhile isspace s))))"
    by (simp only: sublist_rev)
  then show "sublist kw (strip s)" by (simp add: strip_def)
qed

lemma keywords_trimmed:
  "list_all (\<lambda>kw. kw \<noteq> [] \<and> \<not> isspace (hd kw) \<and> \<not> isspace (last kw))
     (concat (map snd section_keywords))"
  by (simp add: section_keywords_def isspace_def)

lemma keyword_in_stripped:
  "list_ex (\<lambda>keyword. sublist keyword (strip s)) (concat (map snd section_keywords)) =
   list_ex (\<lambda>keyword. sublist keyword s) (concat (map snd section_keywords))"
proof -
  have "\<forall>kw\<in>set (concat (map snd section_keywords)). sublist kw (strip s) = sublist kw s"
  proof
    fix kw assume "kw \<in> set (concat (map snd section_keywords))"
    then have "kw \<noteq> [] \<and> \<not> isspace (hd kw) \<and> \<not> isspace (last kw)"
      using keywords_trimmed unfolding list_all_iff by blast
    then show "sublist kw (strip s) = sublist kw s" by (simp add: sublist_strip)
  qed
  then show ?thesis unfolding list_ex_iff by blast
qed

text \<open>
  C7. \<open>_detect_sections\<close> on the five lines \<open>Skills\<close>, \<open>Python, Go\<close>, an empty line,
  \<open>Experience\<close>, \<open>Built a cache.\<close> returns the mapping of \<open>skills\<close> to \<open>Python, Go\<close> and
  of \<open>experience\<close> to \<open>Built a cache.\<close>, in this order. A line is taken for a section
  header (the loop over the table finds a section) exactly when it has fewer than five
  whitespace-delimited tokens and its lowercased text contains a keyword of the table.
\<close>

theorem detect_sections_scenario:
  "detect_sections ''Skills\<newline>Python, Go\<newline>\<newline>Experience\<newline>Built a cache.'' =
     [(''skills'', ''Python, Go''), (''experience'', ''Built a cache.'')] \<and>
   (find_section (strip (lower line)) line section_keywords \<noteq> None) =
     (length (split_ws line) < 5 \<and>
      list_ex (\<lambda>keyword. sublist keyword (lower line)) (concat (map snd section_keywords)))"
proof
  show "detect_sections ''Skills\<newline>Python, Go\<newline>\<newline>Experience\<newline>Built a cache.'' =
     [(''skills'', ''Python, Go''), (''experience'', ''Built a cache.'')]"
    by (simp add: detect_sections_def detect_step_def section_keywords_def strip_def lower_def
        lower_char_def isspace_def split_ws_def sublist_Cons_right char_of_def bit_Suc_0_iff)
  show "(find_section (strip (lower line)) line section_keywords \<noteq> None) =
     (length (split_ws line) < 5 \<and>
      list_ex (\<lambda>keyword. sublist keyword (lower line)) (concat (map snd section_keywords)))"
    by (simp only: find_section_found keyword_in_stripped)
qed

text \<open>
  An instance of C7: the line \<open>Skills\<close> has one token and is the header of \<open>skills\<close>; the
  line \<open>Python, Go\<close> is no header.
\<close>

theorem detect_sections_scenario_witness:
  "detect_sections ''Skills\<newline>Python, Go\<newline>\<newline>Experience\<newline>Built a cache.'' =
     [(''skills'', ''Python, Go''), (''experience'', ''Built a cache.'')] \<and>
   find_section (strip (lower ''Skills'')) ''Skills'' section_keywords = Some ''skills'' \<and>
   length (split_ws ''Skills'') = 1 \<and>
   find_section (strip (lower ''Python, Go'')) ''Python, Go'' section_keywords = None"
proof -
  have 1: "find_section (strip (lower ''Skills'')) ''Skills'' section_keywords = Some ''skills''"
    by (simp add: section_keywords_def strip_def lower_def
        lower_char_def isspace_def split_ws_def sublist_Cons_right char_of_def bit_Suc_0_iff)
  have 2: "length (split_ws ''Skills'') = 1" by (simp add: split_ws_def isspace_def)
  have 3: "find_section (strip (lower ''Python, Go'')) ''Python, Go'' section_keywords = None"
    by (simp add: section_keywords_def strip_def lower_def
        lower_char_def isspace_def split_ws_def sublist_Cons_right char_of_def bit_Suc_0_iff)
  show ?thesis using detect_sections_scenario[of "''Skills''"] 1 2 3 by blast
qed

section \<open>Cosine similarity and brute-force retrieval: proofs\<close>

lemma similarities_loop_result:
  "similarities_loop np q cs = Inr similarities \<Longrightarrow>
   similarities = map (\<lambda>c. (c, similarity np q c)) (filter has_embedding cs)"
proof (induction cs arbitrary: similarities)
  case Nil
  then show ?case by simp
next
  case (Cons c cs)
  show ?case
  proof (cases "has_embedding c")
    case False
    then have "similarities_loop np q (c # cs) = similarities_loop np q cs"
      by (auto simp: has_embedding_def split: option.splits)
    then show ?thesis using Cons False by simp
  next
    case True
    then obtain e where e: "embedding c = Some e" "e \<noteq> []"
      by (auto simp: has_embedding_def split: option.splits)
    from Cons.prems e obtain sim rest where
      r: "cosine_similarity np q e = Inr sim" "similarities_loop np q cs = Inr rest"
         "similarities = (c, sim) # rest"
      by (auto split: sum.splits)
    have "sim = similarity np q c"
      using r(1) e(1) by (auto simp: cosine_similarity_def similarity_def split: if_splits)
    then show ?thesis using Cons.IH[OF r(2)] r(3) True by simp
  qed
qed

lemma insort_key_map: "insort_key k (g x) (map g ys) = map g (insort_key (\<lambda>y. k (g y)) x ys)"
  by (induction ys) auto

lemma sort_key_map: "sort_key k (map g xs) = map g (sort_key (\<lambda>y. k (g y)) xs)"
  by (induction xs) (auto simp: insort_key_map)

lemma filter_as_indices:
  "filter Q cs = map (\<lambda>k. cs ! k) (filter (\<lambda>k. Q (cs ! k)) [0..<length cs])"
proof -
  have "filter Q (map (\<lambda>k. cs ! k) [0..<length cs]) =
        map (\<lambda>k. cs ! k) (filter (\<lambda>k. Q (cs ! k)) [0..<length cs])"
    by (simp add: filter_map o_def)
  then show ?thesis by (simp add: map_nth)
qed

lemma insort_key_ranked:
  fixes g :: "nat \<Rightarrow> 'k :: linorder"
  assumes "sorted_wrt (\<lambda>i j. g i < g j \<or> (g i = g j \<and> i < j)) ys" and "\<forall>y\<in>set ys. x < y"
  shows "sorted_wrt (\<lambda>i j. g i < g j \<or> (g i = g j \<and> i < j)) (insort_key g x ys)"
  using assms
proof (induction ys)
  case Nil
  then show ?case by simp
next
  case (Cons y ys)
  show ?case
  proof (cases "g x \<le> g y")
    case True
    have "\<forall>z\<in>set (y # ys). g x < g z \<or> (g x = g z \<and> x < z)"
      using True Cons.prems by fastforce
    then show ?thesis using True Cons.prems by simp
  next
    case False
    have "sorted_wrt (\<lambda>i j. g i < g j \<or> (g i = g j \<and> i < j)) (insort_key g x ys)"
      using Cons by simp
    then show ?thesis using False Cons.prems by (auto simp: set_insort_key)
  qed
qed

lemma sort_key_ranked:
  fixes g :: "nat \<Rightarrow> 'k :: linorder"
  assumes "sorted_wrt (<) xs"
  shows "sorted_wrt (\<lambda>i j. g i < g j \<or> (g i = g j \<and> i < j)) (sort_key g xs)"
  using assms
proof (induction xs)
  case Nil
  then show ?case by simp
next
  case (Cons x xs)
  then show ?case by (auto intro!: insort_key_ranked)
qed

lemma descending_key_less:
  "a \<noteq> NaN \<Longrightarrow> b \<noteq> NaN \<Longrightarrow> (descending_key a < descending_key b) = float64_less b a"
  by (cases a; cases b) auto

lemma descending_key_eq: "(descending_key a = descending_key b) = (a = b)"
  by (cases a; cases b) auto

lemma ranked_indices:
  fixes f :: "nat \<Rightarrow> float64"
  assumes "\<forall>i\<in>set (filter P [0..<n]). f i \<noteq> NaN"
  shows "sorted_wrt (\<lambda>i j. float64_less (f j) (f i) \<or> (f i = f j \<and> i < j))
           (take k (sort_key (\<lambda>i. descending_key (f i)) (filter P [0..<n])))"
proof -
  let ?s = "sort_key (\<lambda>i. descending_key (f i)) (filter P [0..<n])"
  have "sorted_wrt (<) (filter P [0..<n])"
    by (rule sorted_wrt_filter) (simp add: sorted_wrt_upt)
  then have k: "sorted_wrt (\<lambda>i j. descending_key (f i) < descending_key (f j) \<or>
                       (descending_key (f i) = descending_key (f j) \<and> i < j)) ?s"
    by (rule sort_key_ranked)
  have "sorted_wrt (\<lambda>i j. float64_less (f j) (f i) \<or> (f i = f j \<and> i < j)) ?s"
  proof (rule sorted_wrt_mono_rel[OF _ k])
    fix i j
    assume "i \<in> set ?s" and "j \<in> set ?s"
      and o: "descending_key (f i) < descending_key (f j) \<or>
              (descending_key (f i) = descending_key (f j) \<and> i < j)"
    then have "f i \<noteq> NaN" and "f j \<noteq> NaN" using assms by auto
    then show "float64_less (f j) (f i) \<or> (f i = f j \<and> i < j)"
      using o by (simp add: descending_key_less descending_key_eq)
  qed
  then show ?thesis by (rule sorted_wrt_take)
qed

lemma short_sorted_wrt: "length xs \<le> 1 \<Longrightarrow> sorted_wrt R xs"
  by (cases xs) auto

text \<open>
  The ranking of brute-force retrieval. Let the provider return the query embedding \<open>q\<close>, let \<open>top_k\<close> be at
  least 0, and let \<open>retrieve_relevant_chunks\<close> return a list. Then the list is the chunks
  at some positions \<open>idxs\<close> of the collection, at most \<open>top_k\<close> of them; when the source
  filter is neither \<open>None\<close> nor the empty string, each of them has the source of the
  filter; and along \<open>idxs\<close> the similarity that numpy computes does not increase, chunks
  of equal similarity standing in the order of the collection.
\<close>

lemma retrieve_relevant_chunks_ranking:
  assumes "get_embedding query = Inr q" and "0 \<le> top_k"
    and "retrieve_relevant_chunks np get_embedding st query top_k source_filter = Inr result"
  shows "\<exists>idxs. result = map (\<lambda>i. chunks st ! i) idxs \<and>
           int (length idxs) \<le> top_k \<and>
           (\<forall>i\<in>set idxs. i < length (chunks st) \<and> has_embedding (chunks st ! i)) \<and>
           (truthy source_filter \<longrightarrow>
              (\<forall>i\<in>set idxs. Some (source (chunks st ! i)) = source_filter)) \<and>
           sorted_wrt (\<lambda>i j. float64_less (similarity np q (chunks st ! j))
                                (similarity np q (chunks st ! i)) \<or>
                        (similarity np q (chunks st ! i) = similarity np q (chunks st ! j) \<and>
                         i < j)) idxs"
proof -
  define P :: "chunk \<Rightarrow> bool" where
    "P = (\<lambda>c. (truthy source_filter \<longrightarrow> Some (source c) = source_filter) \<and> has_embedding c)"
  define I where "I = filter (\<lambda>i. P (chunks st ! i)) [0..<length (chunks st)]"
  define f where "f = (\<lambda>i. similarity np q (chunks st ! i))"
  define idxs where "idxs = take (nat top_k) (sort_key (\<lambda>i. descending_key (f i)) I)"
  define filtered where
    "filtered = (if truthy source_filter
                 then filter (\<lambda>c. Some (source c) = source_filter) (chunks st)
                 else chunks st)"
  have filt: "filter has_embedding filtered = filter P (chunks st)"
    by (auto simp: filtered_def P_def intro: filter_cong)
  from assms(1,3) obtain similarities where
    s: "similarities_loop np q filtered = Inr similarities"
       "\<not> (1 < length similarities \<and> list_ex (\<lambda>x. snd x = NaN) similarities)"
       "result = map fst (slice_to (sort_by_similarity similarities) top_k)"
    by (auto simp: retrieve_relevant_chunks_def filtered_def Let_def
        split: sum.splits if_splits)
  have fi: "filter P (chunks st) = map (\<lambda>i. chunks st ! i) I"
    unfolding I_def by (rule filter_as_indices)
  have sims: "similarities = map (\<lambda>i. (chunks st ! i, f i)) I"
    using similarities_loop_result[OF s(1)] filt fi by (simp add: f_def o_def)
  have "sort_by_similarity similarities =
          map (\<lambda>i. (chunks st ! i, f i)) (sort_key (\<lambda>i. descending_key (f i)) I)"
    unfolding sims by (simp add: sort_by_similarity_def sort_key_map o_def)
  then have res: "result = map (\<lambda>i. chunks st ! i) idxs"
    using s(3) assms(2) by (simp add: slice_to_def idxs_def take_map o_def)
  have len: "int (length idxs) \<le> top_k" using assms(2) by (simp add: idxs_def)
  have sub: "set idxs \<subseteq> set I"
    unfolding idxs_def using set_take_subset by fastforce
  have bound: "\<forall>i\<in>set idxs. i < length (chunks st) \<and> has_embedding (chunks st ! i)"
    using sub by (auto simp: I_def P_def)
  have src: "truthy source_filter \<longrightarrow> (\<forall>i\<in>set idxs. Some (source (chunks st ! i)) = source_filter)"
    using sub by (auto simp: I_def P_def)
  have ord: "sorted_wrt (\<lambda>i j. float64_less (f j) (f i) \<or> (f i = f j \<and> i < j)) idxs"
  proof (cases "1 < length similarities")
    case True
    then have "\<forall>i\<in>set I. f i \<noteq> NaN"
      using s(2) by (auto simp: sims list_ex_iff)
    then show ?thesis unfolding idxs_def I_def by (rule ranked_indices)
  next
    case False
    then have "length idxs \<le> 1" by (simp add: sims idxs_def)
    then show ?thesis by (rule short_sorted_wrt)
  qed
  show ?thesis using res len bound src ord unfolding f_def by blast
qed


section \<open>Persistence: proofs\<close>

lemma last_path_join: "b \<noteq> [] \<Longrightarrow> last (path_join a b) = last b"
  by (simp add: path_join_def)

text \<open>The two paths of a snapshot differ: one ends in \<open>s\<close>, the other in \<open>l\<close>.\<close>

lemma get_index_path_distinct:
  "get_index_path st index_name = (faiss_path, metadata_path) \<Longrightarrow> faiss_path \<noteq> metadata_path"
proof
  assume p: "get_index_path st index_name = (faiss_path, metadata_path)"
    and e: "faiss_path = metadata_path"
  have "last faiss_path = CHR ''s''"
    using p by (auto simp: get_index_path_def last_path_join)
  moreover have "last metadata_path = CHR ''l''"
    using p by (auto simp: get_index_path_def last_path_join)
  ultimately show False using e by simp
qed

lemma example_paths:
  "get_index_path example_engine ''default'' =
     (''faiss_indexes/default.faiss'', ''faiss_indexes/default_metadata.pkl'')"
  by (simp add: get_index_path_def path_join_def example_engine_def)

text \<open>
  C8. Let \<open>faiss_path\<close> and \<open>metadata_path\<close> be the two paths of the snapshot name. When
  neither file exists, \<open>delete_index\<close> returns \<open>True\<close> and leaves the disk as it is. It
  returns \<open>False\<close> exactly when a removal raises: the vector-store file exists and
  cannot be removed, or the metadata file exists and cannot be removed.
\<close>

theorem delete_index_result:
  assumes "get_index_path st index_name = (faiss_path, metadata_path)"
  shows "(\<not> path_exists dsk faiss_path \<and> \<not> path_exists dsk metadata_path \<longrightarrow>
            delete_index env st dsk index_name = (True, dsk)) \<and>
         (fst (delete_index env st dsk index_name) = False) =
           ((path_exists dsk faiss_path \<and> \<not> can_remove env faiss_path) \<or>
            (path_exists dsk metadata_path \<and> \<not> can_remove env metadata_path))"
  using assms get_index_path_distinct[OF assms]
  by (auto simp: delete_index_def os_remove_def path_exists_def split: if_splits sum.splits)

text \<open>
  An instance of C8: on the empty disk the name \<open>default\<close> was never saved, and
  \<open>delete_index\<close> returns \<open>True\<close>; when the vector-store file is there and cannot be
  removed, it returns \<open>False\<close>.
\<close>

theorem delete_index_result_witness:
  "get_index_path example_engine ''default'' =
     (''faiss_indexes/default.faiss'', ''faiss_indexes/default_metadata.pkl'') \<and>
   \<not> path_exists Map.empty ''faiss_indexes/default.faiss'' \<and>
   \<not> path_exists Map.empty ''faiss_indexes/default_metadata.pkl'' \<and>
   delete_index example_env example_engine Map.empty ''default'' = (True, Map.empty) \<and>
   fst (delete_index (example_env\<lparr>can_remove := (\<lambda>path. False)\<rparr>) example_engine
          [''faiss_indexes/default.faiss'' \<mapsto> FaissFile example_index] ''default'') = False"
proof -
  have 1: "\<not> path_exists Map.empty ''faiss_indexes/default.faiss''"
    and 2: "\<not> path_exists Map.empty ''faiss_indexes/default_metadata.pkl''"
    by (simp_all add: path_exists_def)
  have 3: "delete_index example_env example_engine Map.empty ''default'' = (True, Map.empty)"
    using delete_index_result[OF example_paths, of Map.empty example_env] 1 2 by blast
  have "path_exists [''faiss_indexes/default.faiss'' \<mapsto> FaissFile example_index]
          ''faiss_indexes/default.faiss'' \<and>
        \<not> can_remove (example_env\<lparr>can_remove := (\<lambda>path. False)\<rparr>) ''faiss_indexes/default.faiss''"
    by (simp add: path_exists_def)
  then have 4: "fst (delete_index (example_env\<lparr>can_remove := (\<lambda>path. False)\<rparr>) example_engine
          [''faiss_indexes/default.faiss'' \<mapsto> FaissFile example_index] ''default'') = False"
    using delete_index_result[OF example_paths,
        of "[''faiss_indexes/default.faiss'' \<mapsto> FaissFile example_index]"
           "example_env\<lparr>can_remove := (\<lambda>path. False)\<rparr>"]
    by blast
  show ?thesis using example_paths 1 2 3 4 by blast
qed

text \<open>
  C5 (failing input). The vector-store file of \<open>default\<close> holds an index. When the
  metadata file cannot be unpickled, \<open>_load_index\<close> on a cleared engine returns \<open>False\<close>
  and the engine has the index of the file as its vector store, which was \<open>None\<close> before
  the call. When the metadata file holds a dict whose \<open>chunks\<close> is an object without
  \<open>len()\<close>, \<open>_load_index\<close> returns \<open>False\<close> with the vector store, the chunk collection
  and the mapping all three replaced.
\<close>

theorem load_index_corrupt_metadata:
  "load_index example_env (clear_index example_engine)
     [''faiss_indexes/default.faiss'' \<mapsto> FaissFile example_index,
      ''faiss_indexes/default_metadata.pkl'' \<mapsto> Garbage] ''default'' =
     (False, Typed ((clear_index example_engine)\<lparr>faiss_index := Some example_index\<rparr>)) \<and>
   faiss_index (clear_index example_engine) = None \<and>
   load_index example_env (clear_index example_engine)
     [''faiss_indexes/default.faiss'' \<mapsto> FaissFile example_index,
      ''faiss_indexes/default_metadata.pkl'' \<mapsto>
        PickleFile \<lparr>md_chunks = Some Unsized, md_index_to_chunk_map = Some (Expected [(7, 7)]),
                    md_created_at = None, md_num_chunks = None\<rparr>] ''default'' =
     (False, Untyped ((clear_index example_engine)\<lparr>faiss_index := Some example_index\<rparr>)
               Unsized (Expected [(7, 7)]))"
  by (simp add: load_index_def get_index_path_def path_join_def example_engine_def
      clear_index_def path_exists_def faiss_read_index_def pickle_load_def example_env_def)

text \<open>
  C2. Let the engine \<open>st\<close> have a vector store \<open>idx\<close> and a chunk collection that is not
  empty, and let both files of the snapshot be writable when \<open>_save_index\<close> runs and
  readable when \<open>_load_index\<close> runs. Then \<open>_load_index\<close> after \<open>_save_index\<close> under the same
  name returns \<open>True\<close>, in any engine \<open>st'\<close> with the same index directory, and that
  engine then has the chunk collection of \<open>st\<close> (equal as a list of records, so in
  order and in every field), the mapping of \<open>st\<close> and the vector store \<open>idx\<close>.
\<close>

theorem save_then_load_roundtrip:
  assumes "faiss_index st = Some idx" and "chunks st \<noteq> []"
    and "get_index_path st index_name = (faiss_path, metadata_path)"
    and "can_write env faiss_path" and "can_write env metadata_path"
    and "can_read env' faiss_path" and "can_read env' metadata_path"
    and "index_dir st' = index_dir st"
  shows "load_index env' st' (save_index env st dsk index_name) index_name =
           (True, Typed (st'\<lparr>faiss_index := Some idx, chunks := chunks st,
                             index_to_chunk_map := index_to_chunk_map st\<rparr>))"
  using assms get_index_path_distinct[OF assms(3)]
  by (auto simp: load_index_def save_index_def faiss_read_index_def pickle_load_def
       path_exists_def faiss_write_index_def pickle_dump_def get_index_path_def
      split: if_splits sum.splits option.splits file_content.splits)

text \<open>
  An instance of C2: the example engine saved as \<open>default\<close> on the empty disk and loaded
  into the cleared engine gives the example engine back.
\<close>

theorem save_then_load_roundtrip_witness:
  "faiss_index example_engine = Some example_index \<and> chunks example_engine \<noteq> [] \<and>
   get_index_path example_engine ''default'' =
     (''faiss_indexes/default.faiss'', ''faiss_indexes/default_metadata.pkl'') \<and>
   can_write example_env ''faiss_indexes/default.faiss'' \<and>
   can_write example_env ''faiss_indexes/default_metadata.pkl'' \<and>
   can_read example_env ''faiss_indexes/default.faiss'' \<and>
   can_read example_env ''faiss_indexes/default_metadata.pkl'' \<and>
   index_dir (clear_index example_engine) = index_dir example_engine \<and>
   load_index example_env (clear_index example_engine)
     (save_index example_env example_engine Map.empty ''default'') ''default'' =
     (True, Typed example_engine)"
proof -
  have 1: "faiss_index example_engine = Some example_index"
    and 2: "chunks example_engine \<noteq> []"
    by (simp_all add: example_engine_def example_chunks_def)
  have 3: "can_write example_env ''faiss_indexes/default.faiss''"
    and 4: "can_write example_env ''faiss_indexes/default_metadata.pkl''"
    and 5: "can_read example_env ''faiss_indexes/default.faiss''"
    and 6: "can_read example_env ''faiss_indexes/default_metadata.pkl''"
    by (simp_all add: example_env_def)
  have 7: "index_dir (clear_index example_engine) = index_dir example_engine"
    by (simp add: clear_index_def)
  have e: "(clear_index example_engine)\<lparr>faiss_index := Some example_index,
              chunks := chunks example_engine,
              index_to_chunk_map := index_to_chunk_map example_engine\<rparr> = example_engine"
    by (simp add: clear_index_def example_engine_def)
  have 8: "load_index example_env (clear_index example_engine)
     (save_index example_env example_engine Map.empty ''default'') ''default'' =
     (True, Typed example_engine)"
    using save_then_load_roundtrip[OF 1 2 example_paths 3 4 5 6 7, of Map.empty] e by simp
  show ?thesis using 1 2 example_paths 3 4 5 6 7 8 by blast
qed

section \<open>The fallback of FAISS retrieval: proofs\<close>

text \<open>
  C6. When the engine has no FAISS index, or one that holds no vector,
  \<open>retrieve_relevant_chunks_faiss\<close> returns what \<open>retrieve_relevant_chunks\<close> returns for
  the same query, \<open>top_k\<close> and source filter over the chunks of the engine: the same
  chunks, or the same exception of the provider.
\<close>

theorem retrieve_relevant_chunks_faiss_fallback:
  assumes "faiss_index st = None \<or> (\<exists>idx. faiss_index st = Some idx \<and> ntotal idx = 0)"
  shows "retrieve_relevant_chunks_faiss np get_embedding search st query top_k source_filter =
         retrieve_relevant_chunks np get_embedding st query top_k source_filter"
  using assms by (auto simp: retrieve_relevant_chunks_faiss_def)

text \<open>
  An instance of C6: the example engine without its index, where the fallback returns
  the two best resume chunks and not the empty list, and with an index that holds no
  vector.
\<close>

theorem retrieve_relevant_chunks_faiss_fallback_witness:
  "faiss_index (example_engine\<lparr>faiss_index := None\<rparr>) = None \<and>
   retrieve_relevant_chunks_faiss example_numpy example_get_embedding example_search
     (example_engine\<lparr>faiss_index := None\<rparr>) ''resume content'' 2 (Some ''resume'') =
     Inr [example_chunks ! 0, example_chunks ! 2] \<and>
   ntotal (new_faiss_index example_engine) = 0 \<and>
   retrieve_relevant_chunks_faiss example_numpy example_get_embedding example_search
     (example_engine\<lparr>faiss_index := Some (new_faiss_index example_engine)\<rparr>)
     ''resume content'' 2 (Some ''resume'') =
     Inr [example_chunks ! 0, example_chunks ! 2]"
proof -
  have 1: "faiss_index (example_engine\<lparr>faiss_index := None\<rparr>) = None" by simp
  have r1: "retrieve_relevant_chunks example_numpy example_get_embedding
      (example_engine\<lparr>faiss_index := None\<rparr>) ''resume content'' 2 (Some ''resume'') =
      Inr [example_chunks ! 0, example_chunks ! 2]"
    by (simp add: retrieve_relevant_chunks_def example_get_embedding_def example_engine_def
      example_chunks_def truthy_def cosine_similarity_def example_numpy_def
      sort_by_similarity_def slice_to_def)
  have 2: "retrieve_relevant_chunks_faiss example_numpy example_get_embedding example_search
     (example_engine\<lparr>faiss_index := None\<rparr>) ''resume content'' 2 (Some ''resume'') =
     Inr [example_chunks ! 0, example_chunks ! 2]"
    using retrieve_relevant_chunks_faiss_fallback[of "example_engine\<lparr>faiss_index := None\<rparr>"
        example_numpy example_get_embedding example_search "''resume content''" 2
        "Some ''resume''"] 1 r1
    by simp
  have 3: "ntotal (new_faiss_index example_engine) = 0"
    by (simp add: ntotal_def new_faiss_index_def)
  have r2: "retrieve_relevant_chunks example_numpy example_get_embedding
      (example_engine\<lparr>faiss_index := Some (new_faiss_index example_engine)\<rparr>)
      ''resume content'' 2 (Some ''resume'') =
      Inr [example_chunks ! 0, example_chunks ! 2]"
    by (simp add: retrieve_relevant_chunks_def example_get_embedding_def example_engine_def
      example_chunks_def truthy_def cosine_similarity_def example_numpy_def
      sort_by_similarity_def slice_to_def)
  have 4: "retrieve_relevant_chunks_faiss example_numpy example_get_embedding example_search
     (example_engine\<lparr>faiss_index := Some (new_faiss_index example_engine)\<rparr>)
     ''resume content'' 2 (Some ''resume'') =
     Inr [example_chunks ! 0, example_chunks ! 2]"
    using retrieve_relevant_chunks_faiss_fallback[of
        "example_engine\<lparr>faiss_index := Some (new_faiss_index example_engine)\<rparr>"
        example_numpy example_get_embedding example_search "''resume content''" 2
        "Some ''resume''"] 3 r2
    by simp
  show ?thesis using 1 2 3 4 by blast
qed

section \<open>Indexing for the FAISS analysis: proofs\<close>

lemma close_chunk_source:
  "list_all (\<lambda>c. source c = src) acc \<Longrightarrow> list_all (\<lambda>c. source c = src) (close_chunk src sec acc cur)"
  by (simp add: close_chunk_def)

lemma chunk_loop_source:
  "list_all (\<lambda>c. source c = src) acc \<Longrightarrow> chunk_loop src sec n acc cur paras = (acc', cur') \<Longrightarrow>
   list_all (\<lambda>c. source c = src) acc'"
proof (induction paras arbitrary: acc cur)
  case Nil
  then show ?case by simp
next
  case (Cons para paras)
  then show ?case by (auto split: if_splits dest: close_chunk_source)
qed

lemma chunk_text_source: "list_all (\<lambda>c. source c = src) (chunk_text txt src sec n)"
proof -
  obtain acc cur where l: "chunk_loop src sec n [] [] (split_sep ''\<newline>\<newline>'' txt) = (acc, cur)"
    by (cases "chunk_loop src sec n [] [] (split_sep ''\<newline>\<newline>'' txt)") auto
  have "list_all (\<lambda>c. source c = src) acc"
    by (rule chunk_loop_source[OF _ l]) simp
  then show ?thesis using l by (simp add: chunk_text_def close_chunk_source)
qed

lemma embed_chunks_source:
  "embed_chunks ge cs = Inr cs' \<Longrightarrow> map source cs' = map source cs"
proof (induction cs arbitrary: cs')
  case Nil
  then show ?case by simp
next
  case (Cons c cs)
  then show ?case by (auto split: sum.splits)
qed

lemma embed_and_collect_result:
  assumes "embed_and_collect ge (st, embs, idxs) cs = Inr (st', embs', idxs')"
  shows "\<exists>new. st' = st\<lparr>chunks := chunks st @ new\<rparr> \<and> map source new = map source cs \<and>
           length embs' = length embs + length cs \<and>
           idxs' = idxs @ map int [length (chunks st)..<length (chunks st) + length cs]"
  using assms
proof (induction cs arbitrary: st embs idxs)
  case Nil
  then show ?case by simp
next
  case (Cons c cs)
  from Cons.prems obtain v where v: "ge (text_c c) = Inr v"
    by (auto split: sum.splits)
  define st1 where "st1 = st\<lparr>chunks := chunks st @ [c\<lparr>embedding := Some v\<rparr>]\<rparr>"
  have step: "embed_and_collect ge (st1, embs @ [v], idxs @ [int (length (chunks st1)) - 1]) cs =
          Inr (st', embs', idxs')"
    using Cons.prems v by (simp add: st1_def Let_def)
  from Cons.IH[OF step] obtain new where
    n: "st' = st1\<lparr>chunks := chunks st1 @ new\<rparr>" "map source new = map source cs"
       "length embs' = length (embs @ [v]) + length cs"
       "idxs' = (idxs @ [int (length (chunks st1)) - 1]) @
                  map int [length (chunks st1)..<length (chunks st1) + length cs]"
    by blast
  have 1: "st' = st\<lparr>chunks := chunks st @ (c\<lparr>embedding := Some v\<rparr> # new)\<rparr>"
    using n(1) by (simp add: st1_def)
  have 2: "map source (c\<lparr>embedding := Some v\<rparr> # new) = map source (c # cs)"
    using n(2) by simp
  have 3: "length embs' = length embs + length (c # cs)" using n(3) by simp
  have len1: "length (chunks st1) = Suc (length (chunks st))" by (simp add: st1_def)
  have u: "[length (chunks st)..<length (chunks st) + length (c # cs)] =
           length (chunks st) # [Suc (length (chunks st))..<Suc (length (chunks st)) + length cs]"
    using upt_conv_Cons[of "length (chunks st)" "Suc (length (chunks st)) + length cs"]
    by (simp del: upt_Suc)
  have 4: "idxs' = idxs @ map int [length (chunks st)..<length (chunks st) + length (c # cs)]"
    unfolding u using n(4) unfolding len1 by (simp del: upt_Suc)
  show ?case using 1 2 3 4 by blast
qed

lemma index_sections_result:
  assumes "index_sections ge (st, embs, idxs) sections = Inr (st', embs', idxs')"
  shows "\<exists>new. st' = st\<lparr>chunks := chunks st @ new\<rparr> \<and> list_all (\<lambda>c. source c = ''resume'') new \<and>
           length embs' = length embs + length new \<and>
           idxs' = idxs @ map int [length (chunks st)..<length (chunks st) + length new]"
  using assms
proof (induction sections arbitrary: st embs idxs)
  case Nil
  have "st' = st\<lparr>chunks := chunks st @ []\<rparr>" using Nil by simp
  then show ?case using Nil by force
next
  case (Cons p sections)
  obtain section_name section_text where p: "p = (section_name, section_text)" by (cases p)
  define cs where "cs = chunk_text section_text ''resume'' section_name 500"
  from Cons.prems obtain st1 embs1 idxs1 where
    s1: "embed_and_collect ge (st, embs, idxs) cs = Inr (st1, embs1, idxs1)"
    and s2: "index_sections ge (st1, embs1, idxs1) sections = Inr (st', embs', idxs')"
    by (auto simp: p cs_def split: sum.splits)
  from embed_and_collect_result[OF s1] obtain new1 where
    n1: "st1 = st\<lparr>chunks := chunks st @ new1\<rparr>" "map source new1 = map source cs"
        "length embs1 = length embs + length cs"
        "idxs1 = idxs @ map int [length (chunks st)..<length (chunks st) + length cs]"
    by blast
  from Cons.IH[OF s2] obtain new2 where
    n2: "st' = st1\<lparr>chunks := chunks st1 @ new2\<rparr>" "list_all (\<lambda>c. source c = ''resume'') new2"
        "length embs' = length embs1 + length new2"
        "idxs' = idxs1 @ map int [length (chunks st1)..<length (chunks st1) + length new2]"
    by blast
  have l1: "length new1 = length cs" using n1(2) by (metis length_map)
  have src1: "list_all (\<lambda>c. source c = ''resume'') new1"
  proof -
    have "list_all (\<lambda>s. s = ''resume'') (map source cs)"
      using chunk_text_source[of "''resume''" section_text section_name 500]
      by (simp add: cs_def list_all_iff)
    then have "list_all (\<lambda>s. s = ''resume'') (map source new1)" using n1(2) by simp
    then show ?thesis by (simp add: list_all_iff)
  qed
  have 1: "st' = st\<lparr>chunks := chunks st @ (new1 @ new2)\<rparr>" using n1(1) n2(1) by simp
  have 2: "list_all (\<lambda>c. source c = ''resume'') (new1 @ new2)" using src1 n2(2) by simp
  have 3: "length embs' = length embs + length (new1 @ new2)" using n1(3) n2(3) l1 by simp
  have "[length (chunks st)..<length (chunks st) + length (new1 @ new2)] =
        [length (chunks st)..<length (chunks st) + length new1] @
        [length (chunks st) + length new1..<length (chunks st) + length new1 + length new2]"
    using upt_add_eq_append[of "length (chunks st)" "length (chunks st) + length new1" "length new2"]
    by (simp add: add.assoc)
  then have 4: "idxs' = idxs @ map int [length (chunks st)..<length (chunks st) + length (new1 @ new2)]"
    using n1(1,4) n2(4) l1 by simp
  show ?case using 1 2 3 4 by blast
qed

lemma update_fresh: "k \<notin> fst ` set al \<Longrightarrow> AList.update k v al = al @ [(k, v)]"
  by (induction al) auto

lemma update_identity_map:
  "AList.update (int n) (int n) (map (\<lambda>i. (int i, int i)) [0..<n]) =
   map (\<lambda>i. (int i, int i)) [0..<Suc n]"
proof -
  have "int n \<notin> fst ` set (map (\<lambda>i. (int i, int i)) [0..<n])" by auto
  then show ?thesis by (simp add: update_fresh)
qed

lemma fold_identity_map:
  "fold (\<lambda>(i, chunk_idx) m. AList.update (int n0 + int i) chunk_idx m)
     (enumerate j (map int [n0 + j..<n0 + j + k]))
     (map (\<lambda>i. (int i, int i)) [0..<n0 + j]) =
   map (\<lambda>i. (int i, int i)) [0..<n0 + j + k]"
proof (induction k arbitrary: j)
  case 0
  then show ?case by simp
next
  case (Suc k)
  have u: "[n0 + j..<n0 + j + Suc k] = (n0 + j) # [n0 + Suc j..<n0 + Suc j + k]"
    using upt_conv_Cons[of "n0 + j" "Suc (n0 + j) + k"] by (simp del: upt_Suc)
  have "AList.update (int n0 + int j) (int (n0 + j)) (map (\<lambda>i. (int i, int i)) [0..<n0 + j]) =
        map (\<lambda>i. (int i, int i)) [0..<n0 + Suc j]"
    using update_identity_map[of "n0 + j"] by (simp del: upt_Suc)
  then show ?case
    unfolding u using Suc.IH[of "Suc j"] by (simp del: upt_Suc)
qed

lemma add_vectors_result:
  assumes "add_vectors st idx embs (map int [n0..<n0 + length embs]) = Inr st'"
    and "ntotal idx = n0" and "index_to_chunk_map st = map (\<lambda>i. (int i, int i)) [0..<n0]"
  shows "st' = st\<lparr>faiss_index := faiss_index st',
                   index_to_chunk_map := map (\<lambda>i. (int i, int i)) [0..<n0 + length embs]\<rparr> \<and>
         vector_count st' = n0 + length embs"
proof -
  from assms(1) obtain idx' where a: "faiss_add idx embs = Inr idx'"
    by (auto simp: add_vectors_def Let_def split: sum.splits)
  have n: "ntotal idx' = n0 + length embs"
    using a assms(2) by (auto simp: faiss_add_def ntotal_def split: if_splits)
  have f: "fold (\<lambda>(i, chunk_idx) m. AList.update (int n0 + int i) chunk_idx m)
     (enumerate 0 (map int [n0..<n0 + length embs])) (map (\<lambda>i. (int i, int i)) [0..<n0]) =
     map (\<lambda>i. (int i, int i)) [0..<n0 + length embs]"
    using fold_identity_map[of n0 0 "length embs"] by simp
  have "st' = st\<lparr>faiss_index := Some idx',
                  index_to_chunk_map := map (\<lambda>i. (int i, int i)) [0..<n0 + length embs]\<rparr>"
    using assms a f by (simp add: add_vectors_def Let_def)
  then show ?thesis using n by (simp add: vector_count_def)
qed

lemma add_to_faiss_index_result:
  assumes "add_to_faiss_index st embs (map int [n0..<n0 + length embs]) = Inr st'"
    and "vector_count st = n0" and "index_to_chunk_map st = map (\<lambda>i. (int i, int i)) [0..<n0]"
  shows "st' = st\<lparr>faiss_index := faiss_index st',
                   index_to_chunk_map := map (\<lambda>i. (int i, int i)) [0..<n0 + length embs]\<rparr> \<and>
         vector_count st' = n0 + length embs"
proof (cases "faiss_index st")
  case None
  then have a: "add_vectors (initialize_faiss_index st) (new_faiss_index st) embs
                  (map int [n0..<n0 + length embs]) = Inr st'"
    using assms(1) by (simp add: add_to_faiss_index_def)
  have z: "n0 = 0" using None assms(2) by (simp add: vector_count_def)
  have "ntotal (new_faiss_index st) = n0"
    by (simp add: z new_faiss_index_def ntotal_def)
  moreover have "index_to_chunk_map (initialize_faiss_index st) = map (\<lambda>i. (int i, int i)) [0..<n0]"
    using assms(3) by (simp add: initialize_faiss_index_def)
  ultimately have "st' = (initialize_faiss_index st)\<lparr>faiss_index := faiss_index st',
                   index_to_chunk_map := map (\<lambda>i. (int i, int i)) [0..<n0 + length embs]\<rparr> \<and>
         vector_count st' = n0 + length embs"
    by (rule add_vectors_result[OF a])
  then show ?thesis by (simp add: initialize_faiss_index_def)
next
  case (Some idx)
  then have a: "add_vectors st idx embs (map int [n0..<n0 + length embs]) = Inr st'"
    using assms(1) by (simp add: add_to_faiss_index_def)
  have "ntotal idx = n0" using Some assms(2) by (simp add: vector_count_def)
  then show ?thesis using add_vectors_result[OF a _ assms(3)] by simp
qed

lemma insert_and_save_indexed:
  assumes "insert_and_save env (st\<lparr>chunks := chunks st @ new\<rparr>, embs,
              map int [length (chunks st)..<length (chunks st) + length new]) dsk save index_name =
             Inr (st', dsk')"
    and "length embs = length new" and "indexed_state st"
    and "list_all (\<lambda>c. source c = ''resume'' \<or> source c = ''job_description'') new"
  shows "indexed_state st' \<and> ats_rules st' = ats_rules st"
proof (cases "embs = []")
  case True
  then have "st' = st\<lparr>chunks := chunks st @ new\<rparr>" "new = []"
    using assms(1,2) by (auto simp: insert_and_save_def)
  then show ?thesis using assms(3) by (simp add: indexed_state_def vector_count_def)
next
  case False
  define st1 where "st1 = st\<lparr>chunks := chunks st @ new\<rparr>"
  define n0 where "n0 = length (chunks st)"
  have a: "add_to_faiss_index st1 embs (map int [n0..<n0 + length embs]) = Inr st'"
    using assms(1,2) False
    by (auto simp: insert_and_save_def np_array_def st1_def n0_def split: if_splits sum.splits)
  have v: "vector_count st1 = n0"
    using assms(3) by (simp add: indexed_state_def vector_count_def st1_def n0_def)
  have m: "index_to_chunk_map st1 = map (\<lambda>i. (int i, int i)) [0..<n0]"
    using assms(3) by (simp add: indexed_state_def st1_def n0_def)
  from add_to_faiss_index_result[OF a v m]
  have r: "st' = st1\<lparr>faiss_index := faiss_index st',
                   index_to_chunk_map := map (\<lambda>i. (int i, int i)) [0..<n0 + length embs]\<rparr>"
       "vector_count st' = n0 + length embs"
    by simp_all
  have c: "chunks st' = chunks st @ new"
    by (subst r(1)) (simp add: st1_def)
  have im: "index_to_chunk_map st' = map (\<lambda>i. (int i, int i)) [0..<n0 + length embs]"
    by (subst r(1)) simp
  have ar: "ats_rules st' = ats_rules st"
    by (subst r(1)) (simp add: st1_def)
  show ?thesis
    using c im ar r(2) assms(2,3,4) by (simp add: indexed_state_def n0_def)
qed

lemma index_rules_result:
  assumes "index_rules ge st rs = Inr st'"
  shows "\<exists>new. st' = st\<lparr>chunks := chunks st @ new\<rparr> \<and> list_all (\<lambda>c. source c = ''ats_rules'') new"
  using assms
proof (induction rs arbitrary: st)
  case Nil
  then have "st' = st\<lparr>chunks := chunks st @ []\<rparr> \<and> list_all (\<lambda>c. source c = ''ats_rules'') []"
    by simp
  then show ?case by (rule exI)
next
  case (Cons r rs)
  define cs where "cs = chunk_text (category r @ '': '' @ join '' '' (rules r)) ''ats_rules'' (category r) 500"
  from Cons.prems obtain cs' where
    e: "embed_chunks ge cs = Inr cs'"
    and s: "index_rules ge (st\<lparr>chunks := chunks st @ cs'\<rparr>) rs = Inr st'"
    by (auto simp: cs_def split: sum.splits)
  from Cons.IH[OF s] obtain new where
    n: "st' = st\<lparr>chunks := chunks st @ cs'\<rparr>\<lparr>chunks := chunks (st\<lparr>chunks := chunks st @ cs'\<rparr>) @ new\<rparr>"
       "list_all (\<lambda>c. source c = ''ats_rules'') new"
    by blast
  have "list_all (\<lambda>s. s = ''ats_rules'') (map source cs)"
    using chunk_text_source[of "''ats_rules''"] by (simp add: cs_def list_all_iff)
  then have "list_all (\<lambda>s. s = ''ats_rules'') (map source cs')"
    using embed_chunks_source[OF e] by simp
  then have "list_all (\<lambda>c. source c = ''ats_rules'') (cs' @ new)"
    using n(2) by (auto simp: list_all_iff)
  moreover have "st' = st\<lparr>chunks := chunks st @ (cs' @ new)\<rparr>" using n(1) by simp
  ultimately show ?case by blast
qed


lemma map_of_identity_map:
  "map_of (map (\<lambda>i. (int i, int i)) [0..<n]) i = Some j \<Longrightarrow> j = i \<and> 0 \<le> j \<and> nat j < n"
  by (induction n) (auto split: if_splits)

lemma clear_index_indexed: "indexed_state (clear_index st)"
  by (simp add: indexed_state_def clear_index_def vector_count_def)

lemma index_resume_with_faiss_indexed:
  assumes "index_resume_with_faiss env ge st dsk resume_text save index_name = Inr (st', dsk')"
  shows "indexed_state st' \<and> ats_rules st' = ats_rules st"
proof -
  obtain state where s0: "index_sections ge (clear_index st, [], []) (detect_sections resume_text) = Inr state"
    and i0: "insert_and_save env state dsk save index_name = Inr (st', dsk')"
    using assms
    by (cases "index_sections ge (clear_index st, [], []) (detect_sections resume_text)")
       (simp_all add: index_resume_with_faiss_def)
  obtain st1 embs idxs where st: "state = (st1, embs, idxs)" by (cases state)
  note s = s0[unfolded st] and i = i0[unfolded st]
  from index_sections_result[OF s] obtain new where
    n: "st1 = (clear_index st)\<lparr>chunks := chunks (clear_index st) @ new\<rparr>"
       "list_all (\<lambda>c. source c = ''resume'') new"
       "length embs = length new"
       "idxs = map int [length (chunks (clear_index st))..<length (chunks (clear_index st)) + length new]"
    by auto
  have src: "list_all (\<lambda>c. source c = ''resume'' \<or> source c = ''job_description'') new"
    using n(2) by (simp add: list_all_iff)
  note le = n(3)
  note i' = i[unfolded n(1) n(4)]
  have "indexed_state st' \<and> ats_rules st' = ats_rules (clear_index st)"
    by (rule insert_and_save_indexed[OF i' le clear_index_indexed src])
  then show ?thesis by (simp add: clear_index_def)
qed

lemma index_job_description_with_faiss_indexed:
  assumes "index_job_description_with_faiss env ge st dsk jd_text save index_name = Inr (st', dsk')"
    and "indexed_state st"
  shows "indexed_state st' \<and> ats_rules st' = ats_rules st"
proof -
  define cs where "cs = chunk_text jd_text ''job_description'' ''requirements'' 500"
  obtain state where s0: "embed_and_collect ge (st, [], []) cs = Inr state"
    and i0: "insert_and_save env state dsk save index_name = Inr (st', dsk')"
    using assms(1)
    by (cases "embed_and_collect ge (st, [], []) cs")
       (simp_all add: index_job_description_with_faiss_def cs_def)
  obtain st1 embs idxs where st: "state = (st1, embs, idxs)" by (cases state)
  note s = s0[unfolded st] and i = i0[unfolded st]
  from embed_and_collect_result[OF s] obtain new where
    n: "st1 = st\<lparr>chunks := chunks st @ new\<rparr>" "map source new = map source cs"
       "length embs = length cs"
       "idxs = map int [length (chunks st)..<length (chunks st) + length cs]"
    by auto
  have l: "length new = length cs" using n(2) by (metis length_map)
  have "list_all (\<lambda>s. s = ''job_description'') (map source cs)"
    using chunk_text_source[of "''job_description''"] by (simp add: cs_def list_all_iff)
  then have "list_all (\<lambda>s. s = ''job_description'') (map source new)" using n(2) by simp
  then have src: "list_all (\<lambda>c. source c = ''resume'' \<or> source c = ''job_description'') new"
    by (simp add: list_all_iff)
  have le: "length embs = length new" using n(3) l by simp
  note i' = i[unfolded n(1) n(4) l[symmetric]]
  show ?thesis
    by (rule insert_and_save_indexed[OF i' le assms(2) src])
qed

text \<open>
  C9. When the indexing of \<open>analyze_with_rag_faiss\<close> completes with the engine \<open>st'\<close>,
  the chunk collection of \<open>st'\<close> is a list \<open>indexed\<close> of resume and job-description
  chunks followed by a list \<open>rule_chunks\<close> of \<open>ats_rules\<close> chunks, and \<open>st'\<close> is what
  \<open>index_ats_rules\<close> returns on the engine that has only \<open>indexed\<close>: the rule chunks are
  appended and the vector store and the mapping are not touched. The vector store holds
  as many vectors as \<open>indexed\<close> has chunks, the mapping sends each identifier below that
  number to itself, and so every identifier of the mapping refers to a chunk of
  \<open>indexed\<close>, whose source is not \<open>ats_rules\<close>.
\<close>

theorem rules_never_in_vector_store:
  assumes "analyze_with_rag_faiss_indexing env get_embedding st dsk resume_text job_description
             index_name = Inr (st', dsk')"
  shows "\<exists>indexed rule_chunks.
           chunks st' = indexed @ rule_chunks \<and>
           list_all (\<lambda>c. source c = ''resume'' \<or> source c = ''job_description'') indexed \<and>
           list_all (\<lambda>c. source c = ''ats_rules'') rule_chunks \<and>
           index_ats_rules get_embedding (st'\<lparr>chunks := indexed\<rparr>) = Inr st' \<and>
           (case faiss_index st' of None \<Rightarrow> 0 | Some idx \<Rightarrow> ntotal idx) = length indexed \<and>
           index_to_chunk_map st' = map (\<lambda>i. (int i, int i)) [0..<length indexed] \<and>
           (\<forall>i j. map_of (index_to_chunk_map st') i = Some j \<longrightarrow>
              0 \<le> j \<and> nat j < length indexed \<and> source (chunks st' ! nat j) \<noteq> ''ats_rules'')"
proof -
  define name where
    "name = (case index_name of None \<Rightarrow> ''session_'' @ now_stamp env | Some n \<Rightarrow> n)"
  define J where
    "J = (\<lambda>st1 dsk1. case job_description of
               None \<Rightarrow> Inr (st1, dsk1)
             | Some jd \<Rightarrow>
                 if jd \<noteq> []
                 then index_job_description_with_faiss env get_embedding st1 dsk1 jd True name
                 else Inr (st1, dsk1))"
  have unf: "analyze_with_rag_faiss_indexing env get_embedding st dsk resume_text job_description
               index_name =
     (case index_resume_with_faiss env get_embedding (clear_index st) dsk resume_text True name of
        Inl err \<Rightarrow> Inl err
      | Inr (st1, dsk1) \<Rightarrow>
          (case J st1 dsk1 of
             Inl err \<Rightarrow> Inl err
           | Inr (st2, dsk2) \<Rightarrow>
               (case index_ats_rules get_embedding st2 of
                  Inl err \<Rightarrow> Inl err
                | Inr st3 \<Rightarrow> Inr (st3, dsk2))))"
    unfolding analyze_with_rag_faiss_indexing_def J_def name_def Let_def by (rule refl)
  from assms[unfolded unf] obtain st1 dsk1 st2 dsk2 where
    r: "index_resume_with_faiss env get_embedding (clear_index st) dsk resume_text True name =
          Inr (st1, dsk1)"
    and j0: "J st1 dsk1 = Inr (st2, dsk2)"
    and a: "index_ats_rules get_embedding st2 = Inr st'"
    by (auto split: sum.splits)
  have j: "(case job_description of
               None \<Rightarrow> Inr (st1, dsk1)
             | Some jd \<Rightarrow>
                 if jd \<noteq> []
                 then index_job_description_with_faiss env get_embedding st1 dsk1 jd True name
                 else Inr (st1, dsk1)) = Inr (st2, dsk2)"
    using j0 by (simp add: J_def)
  have i1: "indexed_state st1" using index_resume_with_faiss_indexed[OF r] by simp
  have i2: "indexed_state st2"
  proof (cases job_description)
    case None
    then show ?thesis using j i1 by simp
  next
    case (Some jd)
    show ?thesis
    proof (cases "jd = []")
      case True
      then show ?thesis using j i1 Some by simp
    next
      case False
      then have "index_job_description_with_faiss env get_embedding st1 dsk1 jd True name =
                   Inr (st2, dsk2)"
        using j Some by simp
      from index_job_description_with_faiss_indexed[OF this i1] show ?thesis by simp
    qed
  qed
  from a have "index_rules get_embedding st2 (ats_rules st2) = Inr st'"
    by (simp add: index_ats_rules_def)
  from index_rules_result[OF this] obtain new where
    n: "st' = st2\<lparr>chunks := chunks st2 @ new\<rparr>" "list_all (\<lambda>c. source c = ''ats_rules'') new"
    by blast
  define indexed where "indexed = chunks st2"
  have c: "chunks st' = indexed @ new" by (subst n(1)) (simp add: indexed_def)
  have s2: "st'\<lparr>chunks := indexed\<rparr> = st2" by (subst n(1)) (simp add: indexed_def)
  have src: "list_all (\<lambda>c. source c = ''resume'' \<or> source c = ''job_description'') indexed"
    using i2 by (simp add: indexed_state_def indexed_def)
  have fi: "faiss_index st' = faiss_index st2" by (subst n(1)) simp
  have vc: "(case faiss_index st' of None \<Rightarrow> 0 | Some idx \<Rightarrow> ntotal idx) = length indexed"
    using i2 unfolding fi by (simp add: indexed_state_def vector_count_def indexed_def)
  have im: "index_to_chunk_map st' = map (\<lambda>i. (int i, int i)) [0..<length indexed]"
    using i2 by (subst n(1)) (simp add: indexed_state_def indexed_def)
  have ids: "\<forall>i j. map_of (index_to_chunk_map st') i = Some j \<longrightarrow>
              0 \<le> j \<and> nat j < length indexed \<and> source (chunks st' ! nat j) \<noteq> ''ats_rules''"
  proof (intro allI impI)
    fix i j assume "map_of (index_to_chunk_map st') i = Some j"
    then have "j = i \<and> 0 \<le> j \<and> nat j < length indexed"
      unfolding im by (rule map_of_identity_map)
    then have b: "0 \<le> j" "nat j < length indexed" by blast+
    then have "chunks st' ! nat j = indexed ! nat j" by (simp add: c nth_append)
    moreover have "source (indexed ! nat j) = ''resume'' \<or> source (indexed ! nat j) = ''job_description''"
      using src b(2) by (simp add: list_all_length)
    ultimately show "0 \<le> j \<and> nat j < length indexed \<and> source (chunks st' ! nat j) \<noteq> ''ats_rules''"
      using b by auto
  qed
  have a': "index_ats_rules get_embedding (st'\<lparr>chunks := indexed\<rparr>) = Inr st'"
    unfolding s2 by (rule a)
  show ?thesis
  proof (intro exI conjI)
    show "chunks st' = indexed @ new" by (rule c)
    show "list_all (\<lambda>c. source c = ''resume'' \<or> source c = ''job_description'') indexed"
      by (rule src)
    show "list_all (\<lambda>c. source c = ''ats_rules'') new" by (rule n(2))
    show "index_ats_rules get_embedding (st'\<lparr>chunks := indexed\<rparr>) = Inr st'" by (rule a')
    show "(case faiss_index st' of None \<Rightarrow> 0 | Some idx \<Rightarrow> ntotal idx) = length indexed"
      by (rule vc)
    show "index_to_chunk_map st' = map (\<lambda>i. (int i, int i)) [0..<length indexed]" by (rule im)
    show "\<forall>i j. map_of (index_to_chunk_map st') i = Some j \<longrightarrow>
              0 \<le> j \<and> nat j < length indexed \<and> source (chunks st' ! nat j) \<noteq> ''ats_rules''"
      by (rule ids)
  qed
qed

text \<open>
  An instance of C9: the example engine with one short rule, a resume of one section and
  a job description of one paragraph. The indexing completes with one resume chunk, one
  job-description chunk and one rule chunk, two vectors and the mapping of the
  identifiers 0 and 1.
\<close>

theorem rules_never_in_vector_store_witness:
  "\<exists>st' dsk'.
     analyze_with_rag_faiss_indexing example_env example_get_embedding
       (example_engine\<lparr>ats_rules :=
          [\<lparr>category = ''Formatting'', rules = [''Use simple bullet points''], weight = 20\<rparr>]\<rparr>)
       Map.empty ''Skills\<newline>Python, Go'' (Some ''Go developer'') (Some ''default'') =
       Inr (st', dsk') \<and>
     map source (chunks st') = [''resume'', ''job_description'', ''ats_rules''] \<and>
     faiss_index st' = Some \<lparr>faiss_d = 2, faiss_vectors = [[1, 0], [1, 0]]\<rparr> \<and>
     index_to_chunk_map st' = [(0, 0), (1, 1)] \<and>
     (\<exists>indexed rule_chunks.
        chunks st' = indexed @ rule_chunks \<and>
        list_all (\<lambda>c. source c = ''resume'' \<or> source c = ''job_description'') indexed \<and>
        list_all (\<lambda>c. source c = ''ats_rules'') rule_chunks \<and>
        (case faiss_index st' of None \<Rightarrow> 0 | Some idx \<Rightarrow> ntotal idx) = length indexed \<and>
        index_to_chunk_map st' = map (\<lambda>i. (int i, int i)) [0..<length indexed])"
proof -
  have "case analyze_with_rag_faiss_indexing example_env example_get_embedding
       (example_engine\<lparr>ats_rules :=
          [\<lparr>category = ''Formatting'', rules = [''Use simple bullet points''], weight = 20\<rparr>]\<rparr>)
       Map.empty ''Skills\<newline>Python, Go'' (Some ''Go developer'') (Some ''default'') of
     Inl err \<Rightarrow> False
   | Inr (st', dsk') \<Rightarrow>
       map source (chunks st') = [''resume'', ''job_description'', ''ats_rules''] \<and>
       faiss_index st' = Some \<lparr>faiss_d = 2, faiss_vectors = [[1, 0], [1, 0]]\<rparr> \<and>
       index_to_chunk_map st' = [(0, 0), (1, 1)]"
    by (simp add: analyze_with_rag_faiss_indexing_def index_resume_with_faiss_def
      index_job_description_with_faiss_def insert_and_save_def np_array_def
      add_to_faiss_index_def add_vectors_def faiss_add_def initialize_faiss_index_def
      new_faiss_index_def ntotal_def save_index_def get_index_path_def path_join_def
      faiss_write_index_def pickle_dump_def index_ats_rules_def
      clear_index_def example_engine_def example_env_def example_get_embedding_def
      detect_sections_def detect_step_def section_keywords_def strip_def lower_def
      lower_char_def isspace_def split_ws_def sublist_Cons_right char_of_def bit_Suc_0_iff
      chunk_text_def close_chunk_def Let_def)
  then obtain st' dsk' where
    r: "analyze_with_rag_faiss_indexing example_env example_get_embedding
       (example_engine\<lparr>ats_rules :=
          [\<lparr>category = ''Formatting'', rules = [''Use simple bullet points''], weight = 20\<rparr>]\<rparr>)
       Map.empty ''Skills\<newline>Python, Go'' (Some ''Go developer'') (Some ''default'') =
       Inr (st', dsk')"
    and a: "map source (chunks st') = [''resume'', ''job_description'', ''ats_rules'']"
       "faiss_index st' = Some \<lparr>faiss_d = 2, faiss_vectors = [[1, 0], [1, 0]]\<rparr>"
       "index_to_chunk_map st' = [(0, 0), (1, 1)]"
    by (auto split: sum.splits)
  from rules_never_in_vector_store[OF r] obtain indexed rule_chunks where
    c: "chunks st' = indexed @ rule_chunks"
       "list_all (\<lambda>c. source c = ''resume'' \<or> source c = ''job_description'') indexed"
       "list_all (\<lambda>c. source c = ''ats_rules'') rule_chunks"
       "(case faiss_index st' of None \<Rightarrow> 0 | Some idx \<Rightarrow> ntotal idx) = length indexed"
       "index_to_chunk_map st' = map (\<lambda>i. (int i, int i)) [0..<length indexed]"
    by (elim exE conjE)
  show ?thesis
    by (intro exI conjI) (rule r a c)+
qed

end
